theory Spec2Isabelle
  imports Complex_Main "HOL-Library.AList"
begin

section \<open>Exact decimals (Python's \<open>decimal\<close> module under its default context)\<close>

text \<open>
  \<open>utilities/order_builder/helpers.py\<close> computes with Python \<open>Decimal\<close> values. A finite
  \<open>Decimal\<close> is a triple of a sign, a coefficient (a natural number, printed without
  leading zeros) and an exponent; its value is \<open>\<plusminus> coefficient * 10 ^ exponent\<close>. The
  docstring of \<open>decimal_places\<close> fixes the convention of the module: values are finite,
  never NaN or an infinity, so the type below has the finite values only.

  The library functions the helpers call (\<open>scaleb\<close>, \<open>quantize\<close>, subtraction, comparison)
  are modelled after the library's own algorithm, with the digit strings of the library
  read as natural numbers: dropping the last \<open>k\<close> digits of a coefficient is \<open>div 10 ^ k\<close>,
  the dropped digits are \<open>mod 10 ^ k\<close>. The context is the default one, which the helpers
  never change: precision 28, \<open>Emax = 999999\<close>, \<open>Emin = -999999\<close>, rounding
  \<open>ROUND_HALF_EVEN\<close>, no clamping, and the signals \<open>InvalidOperation\<close> and \<open>Overflow\<close>
  trapped, that is, raised as exceptions.
\<close>

datatype decimal = Decimal (dsign: bool) (coeff: nat) (expo: int)

datatype signal = InvalidOperation | Overflow

datatype rounding = ROUND_FLOOR | ROUND_HALF_UP | ROUND_CEILING | ROUND_HALF_EVEN

definition prec :: int where
  "prec = 28"

definition Emax :: int where
  "Emax = 999999"

definition Emin :: int where
  "Emin = - 999999"

definition Etiny :: int where
  "Etiny = Emin - (prec - 1)"

definition Etop :: int where
  "Etop = Emax - (prec - 1)"

text \<open>The length of the coefficient's digit string (\<open>len(self._int)\<close>); zero is \<open>'0'\<close>.\<close>

fun ndigits :: "nat \<Rightarrow> nat" where
  "ndigits n = (if n < 10 then 1 else Suc (ndigits (n div 10)))"

declare ndigits.simps [simp del]

definition adjusted :: "decimal \<Rightarrow> int" where
  "adjusted x = expo x + int (ndigits (coeff x)) - 1"

text \<open>The signed coefficient and the exact value of a decimal.\<close>

definition scoeff :: "decimal \<Rightarrow> int" where
  "scoeff x = (if dsign x then - int (coeff x) else int (coeff x))"

definition dval :: "decimal \<Rightarrow> rat" where
  "dval x = of_int (scoeff x) * 10 powi expo x"

text \<open>
  The rounding functions of the library look at the kept digits \<open>q\<close>, the dropped digits
  \<open>r\<close> and \<open>m = 10 ^ k\<close> for \<open>k\<close> dropped digits, and answer \<open>1\<close> (add one to the kept
  digits), \<open>0\<close> (exact) or \<open>-1\<close> (inexact, keep): \<open>_round_down\<close>, \<open>_round_floor\<close>,
  \<open>_round_ceiling\<close>, \<open>_round_half_up\<close>, \<open>_round_half_even\<close>.
\<close>

definition round_down_digits :: "nat \<Rightarrow> int" where
  "round_down_digits r = (if r = 0 then 0 else - 1)"

definition round_half_up_digits :: "nat \<Rightarrow> nat \<Rightarrow> int" where
  "round_half_up_digits r m = (if m \<le> 2 * r then 1 else if r = 0 then 0 else - 1)"

fun pick_rounding :: "rounding \<Rightarrow> bool \<Rightarrow> nat \<Rightarrow> nat \<Rightarrow> nat \<Rightarrow> int" where
  "pick_rounding ROUND_FLOOR s q r m =
     (if \<not> s then round_down_digits r else - round_down_digits r)"
| "pick_rounding ROUND_CEILING s q r m =
     (if s then round_down_digits r else - round_down_digits r)"
| "pick_rounding ROUND_HALF_UP s q r m = round_half_up_digits r m"
| "pick_rounding ROUND_HALF_EVEN s q r m =
     (if 2 * r = m \<and> even q then - 1 else round_half_up_digits r m)"

text \<open>
  Splitting a coefficient \<open>c\<close> with exponent \<open>e\<close> at a larger exponent \<open>t\<close>, as \<open>_rescale\<close>
  and \<open>_fix\<close> do: when even the first digit of \<open>c\<close> lies below \<open>t\<close>, the library replaces
  the number by \<open>1E(t-1)\<close> before it rounds.
\<close>

definition split_digits :: "nat \<Rightarrow> int \<Rightarrow> int \<Rightarrow> nat \<times> nat \<times> nat" where
  "split_digits c e t =
     (let digits = int (ndigits c) + e - t;
          c' = (if digits < 0 then 1 else c);
          e' = (if digits < 0 then t - 1 else e);
          m = 10 ^ nat (t - e')
      in (c' div m, c' mod m, m))"

definition rescale :: "decimal \<Rightarrow> int \<Rightarrow> rounding \<Rightarrow> decimal" where
  "rescale x t rnd =
     (if coeff x = 0 then Decimal (dsign x) 0 t
      else if t \<le> expo x then Decimal (dsign x) (coeff x * 10 ^ nat (expo x - t)) t
      else case split_digits (coeff x) (expo x) t of (q, r, m) \<Rightarrow>
        Decimal (dsign x) (if pick_rounding rnd (dsign x) q r m = 1 then q + 1 else q) t)"

text \<open>\<open>Decimal._fix\<close>: round a result to the context.\<close>

definition decimal_fix :: "decimal \<Rightarrow> signal + decimal" where
  "decimal_fix x =
     (if coeff x = 0 then Inr (Decimal (dsign x) 0 (min (max (expo x) Etiny) Emax))
      else
        let exp_min = int (ndigits (coeff x)) + expo x - prec in
        if Etop < exp_min then Inl Overflow
        else
          let exp_min = (if exp_min < Etiny then Etiny else exp_min) in
          if expo x < exp_min then
            (case split_digits (coeff x) (expo x) exp_min of (q, r, m) \<Rightarrow>
               let changed = pick_rounding ROUND_HALF_EVEN (dsign x) q r m;
                   coeff1 = (if 0 < changed then q + 1 else q);
                   too_long = (0 < changed \<and> prec < int (ndigits coeff1));
                   coeff2 = (if too_long then coeff1 div 10 else coeff1);
                   exp_min2 = (if too_long then exp_min + 1 else exp_min)
               in if Etop < exp_min2 then Inl Overflow
                  else Inr (Decimal (dsign x) coeff2 exp_min2))
          else Inr x)"

text \<open>\<open>Decimal.scaleb\<close> with an integer second operand.\<close>

definition scaleb :: "decimal \<Rightarrow> int \<Rightarrow> signal + decimal" where
  "scaleb x n =
     (if \<not> (- 2 * (Emax + prec) \<le> n \<and> n \<le> 2 * (Emax + prec)) then Inl InvalidOperation
      else decimal_fix (Decimal (dsign x) (coeff x) (expo x + n)))"

text \<open>\<open>Decimal.quantize\<close>: only the exponent of the second operand is used.\<close>

definition quantize :: "decimal \<Rightarrow> decimal \<Rightarrow> rounding \<Rightarrow> signal + decimal" where
  "quantize x ex rnd =
     (if \<not> (Etiny \<le> expo ex \<and> expo ex \<le> Emax) then Inl InvalidOperation
      else if coeff x = 0 then decimal_fix (Decimal (dsign x) 0 (expo ex))
      else if Emax < adjusted x then Inl InvalidOperation
      else if prec < adjusted x - expo ex + 1 then Inl InvalidOperation
      else
        let ans = rescale x (expo ex) rnd in
        if Emax < adjusted ans then Inl InvalidOperation
        else if prec < int (ndigits (coeff ans)) then Inl InvalidOperation
        else decimal_fix ans)"

subsection \<open>The rounding helpers\<close>

text \<open>
  \<^verbatim>\<open>
  def round_down(x: Decimal, sig_digits: int) -> Decimal:
      exp = Decimal(1).scaleb(-sig_digits)
      return Decimal(str(x)).quantize(exp=exp, rounding=ROUND_FLOOR)
  \<close>
  \<open>round_normal\<close> and \<open>round_up\<close> differ in the rounding mode only. \<open>Decimal(str(x))\<close>
  rebuilds a finite decimal from its own string form and is the same triple again.
\<close>

definition round_down :: "decimal \<Rightarrow> int \<Rightarrow> signal + decimal" where
  "round_down x sig_digits =
     (case scaleb (Decimal False 1 0) (- sig_digits) of
        Inl e \<Rightarrow> Inl e
      | Inr ex \<Rightarrow> quantize x ex ROUND_FLOOR)"

definition round_normal :: "decimal \<Rightarrow> int \<Rightarrow> signal + decimal" where
  "round_normal x sig_digits =
     (case scaleb (Decimal False 1 0) (- sig_digits) of
        Inl e \<Rightarrow> Inl e
      | Inr ex \<Rightarrow> quantize x ex ROUND_HALF_UP)"

definition round_up :: "decimal \<Rightarrow> int \<Rightarrow> signal + decimal" where
  "round_up x sig_digits =
     (case scaleb (Decimal False 1 0) (- sig_digits) of
        Inl e \<Rightarrow> Inl e
      | Inr ex \<Rightarrow> quantize x ex ROUND_CEILING)"


text \<open>
  What the claims say in their own words: the value \<open>x * 10 ^ d\<close> of which the helpers
  keep the integer part, and rounding half away from zero (\<open>ROUND_HALF_UP\<close>).
\<close>

definition scaled :: "decimal \<Rightarrow> int \<Rightarrow> rat" where
  "scaled x t = dval x * 10 powi (- t)"

definition half_up :: "rat \<Rightarrow> int" where
  "half_up v = (if 0 \<le> v then \<lfloor>v + 1 / 2\<rfloor> else - \<lfloor>- v + 1 / 2\<rfloor>)"

subsection \<open>Price bounds on the tick grid\<close>

text \<open>
  Modelled from the spec: \<open>TickSize\<close> is declared in \<open>types/clob_types.py\<close>, which is not
  among the sources; the spec gives the grid as the four granularities \<open>0.1\<close>, \<open>0.01\<close>,
  \<open>0.001\<close>, \<open>0.0001\<close>, passed as strings. \<open>Decimal_of\<close> is \<open>Decimal(tick_size)\<close>.
\<close>

datatype TickSize = Tick_0_1 | Tick_0_01 | Tick_0_001 | Tick_0_0001

fun Decimal_of :: "TickSize \<Rightarrow> decimal" where
  "Decimal_of Tick_0_1 = Decimal False 1 (- 1)"
| "Decimal_of Tick_0_01 = Decimal False 1 (- 2)"
| "Decimal_of Tick_0_001 = Decimal False 1 (- 3)"
| "Decimal_of Tick_0_0001 = Decimal False 1 (- 4)"

text \<open>
  Comparison of decimals is exact: the library compares signs, adjusted exponents and the
  zero-padded digit strings, which is the comparison of the coefficients brought to the
  smaller exponent. Subtraction is the exact difference at the smaller exponent, rounded
  to the context by \<open>_fix\<close> (a zero difference is given the sign \<open>+\<close>).
\<close>

definition dec_le :: "decimal \<Rightarrow> decimal \<Rightarrow> bool" where
  "dec_le a b =
     (let m = min (expo a) (expo b)
      in scoeff a * 10 ^ nat (expo a - m) \<le> scoeff b * 10 ^ nat (expo b - m))"

definition dec_sub :: "decimal \<Rightarrow> decimal \<Rightarrow> signal + decimal" where
  "dec_sub a b =
     (let m = min (expo a) (expo b);
          n = scoeff a * 10 ^ nat (expo a - m) - scoeff b * 10 ^ nat (expo b - m)
      in decimal_fix (Decimal (n < 0) (nat \<bar>n\<bar>) m))"

text \<open>
  \<^verbatim>\<open>
  def price_valid(price: Decimal, tick_size: TickSize) -> bool:
      return Decimal(tick_size) <= price <= 1 - Decimal(tick_size)
  \<close>
  A chained comparison evaluates its right half only when the left half holds.
\<close>

definition price_valid :: "decimal \<Rightarrow> TickSize \<Rightarrow> signal + bool" where
  "price_valid price tick_size =
     (if dec_le (Decimal_of tick_size) price then
        (case dec_sub (Decimal False 1 0) (Decimal_of tick_size) of
           Inl e \<Rightarrow> Inl e
         | Inr upper \<Rightarrow> Inr (dec_le price upper))
      else Inr False)"

subsection \<open>The orderbook hash\<close>

text \<open>
  Modelled from the spec: \<open>OrderBookSummary\<close> is declared in \<open>types/clob_types.py\<close>, which
  is not among the sources. The spec describes an ordered bid list and ask list (each
  entry a price and a size), a server-supplied hash string and a market/token identifier.
\<close>

record OrderBookSummary =
  market :: string
  asset_id :: string
  bids :: "(decimal \<times> decimal) list"
  asks :: "(decimal \<times> decimal) list"
  hash :: string

text \<open>
  \<^verbatim>\<open>
  def generate_orderbook_summary_hash(orderbook: OrderBookSummary) -> str:
      server_hash = orderbook.hash
      orderbook.hash = ""
      computed_hash = hashlib.sha1(
          str(orderbook.model_dump_json(by_alias=True)).encode("utf-8"),
      ).hexdigest()
      orderbook.hash = server_hash
      return computed_hash
  \<close>
  The function assigns to a field of the caller's object, so the model passes the object
  in and returns it with the result. The two library functions are parameters:
  \<open>sha1_hexdigest\<close> is \<open>hashlib.sha1(s.encode("utf-8")).hexdigest()\<close> and
  \<open>model_dump_json\<close> is pydantic's serialization with aliases.
\<close>

definition generate_orderbook_summary_hash ::
  "(string \<Rightarrow> string) \<Rightarrow> (OrderBookSummary \<Rightarrow> string) \<Rightarrow> OrderBookSummary
    \<Rightarrow> OrderBookSummary \<times> string" where
  "generate_orderbook_summary_hash sha1_hexdigest model_dump_json orderbook =
     (let server_hash = hash orderbook;
          orderbook1 = orderbook\<lparr>hash := ''''\<rparr>;
          computed_hash = sha1_hexdigest (model_dump_json orderbook1);
          orderbook2 = orderbook1\<lparr>hash := server_hash\<rparr>
      in (orderbook2, computed_hash))"

section \<open>The websocket client\<close>

text \<open>
  \<open>clients/websockets_client.py\<close> receives text frames, parses them with \<open>json.loads\<close>
  and hands the parsed value to a handler. A parsed value is a Python object built from
  dicts, lists, strings, numbers, booleans and \<open>None\<close>; a dict keeps its keys in
  insertion order, so it is an association list here (\<open>map_of\<close> looks a key up,
  \<open>AList.update\<close> assigns to a key as Python does: in place if the key exists, at the end
  otherwise). A float is carried by its value.
\<close>

datatype json =
    JNull
  | JBool bool
  | JInt int
  | JFloat rat
  | JStr string
  | JArr "json list"
  | JObj "(string \<times> json) list"

type_synonym dict = "(string \<times> json) list"

text \<open>
  The exceptions of the module. \<open>CancelledError\<close>, \<open>KeyboardInterrupt\<close> and \<open>SystemExit\<close>
  derive from \<open>BaseException\<close> only, so \<open>except Exception\<close> does not catch them;
  \<open>OtherException\<close> stands for any other subclass of \<open>Exception\<close> (a closed connection, an
  I/O error, whatever a handler raises).
\<close>

datatype exn =
    JSONDecodeError
  | ValidationError
  | AttributeError
  | KeyError
  | TypeError
  | AuthenticationRequiredError
  | OtherException string
  | CancelledError
  | KeyboardInterrupt
  | SystemExit

fun is_Exception :: "exn \<Rightarrow> bool" where
  "is_Exception CancelledError = False"
| "is_Exception KeyboardInterrupt = False"
| "is_Exception SystemExit = False"
| "is_Exception e = True"

text \<open>The pydantic event classes of \<open>types/websockets_types.py\<close> the two handlers build.\<close>

datatype model =
    OrderBookSummaryEvent
  | PriceChangeEvent
  | TickSizeChangeEvent
  | LastTradePriceEvent
  | OrderEvent
  | TradeEvent

text \<open>
  What a handler or the receive loop prints: a typed event (\<open>print(Model(**message))\<close>),
  the parsed message itself (\<open>print(message)\<close>, \<open>print(event.json)\<close>), its JSON text
  (\<open>print(event.text)\<close>), the validation errors (\<open>print(e.errors())\<close>), and the three
  messages of the socket functions.
\<close>

datatype printed =
    Event model dict
  | Message json
  | Text json
  | Errors
  | Failed_to_decode string
  | Error_processing exn
  | Connection_error string exn

subsection \<open>Handlers\<close>

text \<open>
  \<open>Model(**item)\<close>: a \<open>TypeError\<close> when \<open>item\<close> is not a mapping, a \<open>ValidationError\<close> when
  pydantic rejects the fields, the event otherwise. The field validation of pydantic is
  the parameter \<open>valid\<close> (the base class \<open>OrderBookSummary\<close> is declared in
  \<open>types/clob_types.py\<close>, which is not among the sources).
\<close>

definition construct :: "(model \<Rightarrow> dict \<Rightarrow> bool) \<Rightarrow> model \<Rightarrow> json \<Rightarrow> exn + printed" where
  "construct valid m item =
     (case item of
        JObj d \<Rightarrow> if valid m d then Inr (Event m d) else Inl ValidationError
      | _ \<Rightarrow> Inl TypeError)"

text \<open>
  \<open>item.text\<close>: an attribute read on a parsed value. None of \<open>dict\<close>, \<open>list\<close>, \<open>str\<close>,
  \<open>int\<close>, \<open>float\<close>, \<open>bool\<close> and \<open>None\<close> has an attribute \<open>text\<close>.
\<close>

definition getattr_text :: "json \<Rightarrow> exn + printed" where
  "getattr_text item = Inl AttributeError"

text \<open>\<open>message[key]\<close> with a string key: only a dict can be indexed by a string.\<close>

definition subscript :: "json \<Rightarrow> string \<Rightarrow> exn + json" where
  "subscript message k =
     (case message of
        JObj d \<Rightarrow> (case map_of d k of None \<Rightarrow> Inl KeyError | Some v \<Rightarrow> Inr v)
      | _ \<Rightarrow> Inl TypeError)"

text \<open>\<open>print(Model(**message), "\n")\<close> as one statement.\<close>

definition print_model :: "(model \<Rightarrow> dict \<Rightarrow> bool) \<Rightarrow> model \<Rightarrow> json \<Rightarrow> printed list \<times> exn option" where
  "print_model valid m message =
     (case construct valid m message of
        Inl e \<Rightarrow> ([], Some e)
      | Inr ev \<Rightarrow> ([ev], None))"

text \<open>
  The loop over an array-valued frame in \<open>_process_market_event\<close>:
  \<^verbatim>\<open>
  for item in message:
      try:
          print(OrderBookSummaryEvent(**item), "\n")
      except ValidationError as e:
          print(item.text)
          print(e.errors())
  \<close>
  The result is what was printed and the exception that left the loop, if any.
\<close>

fun market_items :: "(model \<Rightarrow> dict \<Rightarrow> bool) \<Rightarrow> json list \<Rightarrow> printed list \<times> exn option" where
  "market_items valid [] = ([], None)"
| "market_items valid (item # items) =
     (case construct valid OrderBookSummaryEvent item of
        Inr ev \<Rightarrow>
          (case market_items valid items of (out, r) \<Rightarrow> (ev # out, r))
      | Inl e \<Rightarrow>
          if e = ValidationError then
            (case getattr_text item of
               Inl e' \<Rightarrow> ([], Some e')
             | Inr t \<Rightarrow>
                 (case market_items valid items of (out, r) \<Rightarrow> (t # Errors # out, r)))
          else ([], Some e))"

text \<open>
  \<open>_process_market_event\<close>: the body of its \<open>try\<close>, then the two \<open>except\<close> clauses
  (\<open>JSONDecodeError\<close> prints \<open>event.text\<close>; \<open>ValidationError\<close> prints the errors and
  \<open>event.json\<close>); any other exception leaves the function.
\<close>

definition market_body :: "(model \<Rightarrow> dict \<Rightarrow> bool) \<Rightarrow> json \<Rightarrow> printed list \<times> exn option" where
  "market_body valid message =
     (case message of
        JArr items \<Rightarrow> market_items valid items
      | _ \<Rightarrow>
          (case subscript message ''event_type'' of
             Inl e \<Rightarrow> ([], Some e)
           | Inr t \<Rightarrow>
               if t = JStr ''book'' then print_model valid OrderBookSummaryEvent message
               else if t = JStr ''price_change'' then print_model valid PriceChangeEvent message
               else if t = JStr ''tick_size_change'' then
                 print_model valid TickSizeChangeEvent message
               else if t = JStr ''last_trade_price'' then
                 print_model valid LastTradePriceEvent message
               else ([Message message], None)))"

definition process_market_event :: "(model \<Rightarrow> dict \<Rightarrow> bool) \<Rightarrow> json \<Rightarrow> printed list \<times> exn option" where
  "process_market_event valid message =
     (case market_body valid message of
        (out, None) \<Rightarrow> (out, None)
      | (out, Some e) \<Rightarrow>
          if e = JSONDecodeError then (out @ [Text message], None)
          else if e = ValidationError then (out @ [Errors, Message message], None)
          else (out, Some e))"

text \<open>
  \<open>_process_user_event\<close>: its \<open>match\<close> has the cases \<open>"order"\<close> and \<open>"trade"\<close> and no
  default case.
\<close>

definition user_body :: "(model \<Rightarrow> dict \<Rightarrow> bool) \<Rightarrow> json \<Rightarrow> printed list \<times> exn option" where
  "user_body valid message =
     (case subscript message ''event_type'' of
        Inl e \<Rightarrow> ([], Some e)
      | Inr t \<Rightarrow>
          if t = JStr ''order'' then print_model valid OrderEvent message
          else if t = JStr ''trade'' then print_model valid TradeEvent message
          else ([], None))"

definition process_user_event :: "(model \<Rightarrow> dict \<Rightarrow> bool) \<Rightarrow> json \<Rightarrow> printed list \<times> exn option" where
  "process_user_event valid message =
     (case user_body valid message of
        (out, None) \<Rightarrow> (out, None)
      | (out, Some e) \<Rightarrow>
          if e = JSONDecodeError then (out @ [Text message], None)
          else if e = ValidationError then (out @ [Text message, Errors], None)
          else (out, Some e))"

subsection \<open>The socket functions\<close>

text \<open>
  What a socket function does to the outside: connection attempts, frames sent, lines
  printed, and sleeps. A run is the list of these effects in order.
\<close>

datatype effect = Connect string | Send json | Print printed | Sleep nat

text \<open>
  The functions loop forever on what the network delivers, so a run is driven by a script
  of connection attempts: the attempt is refused (\<open>websockets.connect\<close> raises), or the
  handshake fails, or the connection delivers some frames and then ends, normally (the
  \<open>async for\<close> loop is exhausted) or with an exception. When the script is used up the
  function is still in its loop: the status \<open>Running\<close>. \<open>Raised\<close> is an exception that left
  the function.
\<close>

datatype conn =
  Conn (connect_raises: "exn option") (send_raises: "exn option") (frames: "string list")
    (closed_with: "exn option")

datatype status = Running | Raised exn

text \<open>
  The handler is supplied by the caller: given its own state and the parsed frame it
  prints, changes its state, and returns or raises. \<open>default_handler\<close> makes a handler of
  the two print-only handlers above.
\<close>

type_synonym 's handler = "'s \<Rightarrow> json \<Rightarrow> printed list \<times> 's \<times> exn option"

definition default_handler :: "(json \<Rightarrow> printed list \<times> exn option) \<Rightarrow> unit handler" where
  "default_handler process s message = (case process message of (out, r) \<Rightarrow> (out, s, r))"

text \<open>
  The body of the receive loop:
  \<^verbatim>\<open>
  try:
      data = json.loads(message)
      await process_event(EventWrapper(data))
  except JSONDecodeError:
      print(f"Failed to decode message: {message}")
  except Exception as e:
      print(f"Error processing message: {e}")
  \<close>
  \<open>loads\<close> is \<open>json.loads\<close>.
\<close>

definition receive ::
  "(string \<Rightarrow> exn + json) \<Rightarrow> 's handler \<Rightarrow> string \<Rightarrow> 's \<Rightarrow> effect list \<times> 's \<times> exn option" where
  "receive loads process_event message s =
     (case (case loads message of
              Inl e \<Rightarrow> ([], s, Some e)
            | Inr data \<Rightarrow>
                (case process_event s data of (out, s', r) \<Rightarrow> (map Print out, s', r))) of
        (eff, s', None) \<Rightarrow> (eff, s', None)
      | (eff, s', Some e) \<Rightarrow>
          if e = JSONDecodeError then (eff @ [Print (Failed_to_decode message)], s', None)
          else if is_Exception e then (eff @ [Print (Error_processing e)], s', None)
          else (eff, s', Some e))"

text \<open>\<open>async for message in websocket\<close>: an exception that leaves the body ends the loop.\<close>

fun listen ::
  "(string \<Rightarrow> exn + json) \<Rightarrow> 's handler \<Rightarrow> string list \<Rightarrow> 's \<Rightarrow> effect list \<times> 's \<times> exn option" where
  "listen loads process_event [] s = ([], s, None)"
| "listen loads process_event (message # messages) s =
     (case receive loads process_event message s of
        (eff, s', Some e) \<Rightarrow> (eff, s', Some e)
      | (eff, s', None) \<Rightarrow>
          (case listen loads process_event messages s' of
             (eff2, s'', r) \<Rightarrow> (eff @ eff2, s'', r)))"

text \<open>One pass through \<open>async with websockets.connect(url) as websocket\<close>.\<close>

definition session ::
  "string \<Rightarrow> json \<Rightarrow> (string \<Rightarrow> exn + json) \<Rightarrow> 's handler \<Rightarrow> conn \<Rightarrow> 's
    \<Rightarrow> effect list \<times> 's \<times> exn option" where
  "session url handshake loads process_event c s =
     (case connect_raises c of
        Some e \<Rightarrow> ([Connect url], s, Some e)
      | None \<Rightarrow>
          (case send_raises c of
             Some e \<Rightarrow> ([Connect url], s, Some e)
           | None \<Rightarrow>
               (case listen loads process_event (frames c) s of
                  (eff, s', Some e) \<Rightarrow> (Connect url # Send handshake # eff, s', Some e)
                | (eff, s', None) \<Rightarrow>
                    (Connect url # Send handshake # eff, s', closed_with c))))"

text \<open>
  \<^verbatim>\<open>
  while True:
      try:
          async with websockets.connect(url) as websocket: ...
      except Exception as e:
          print(f"... socket connection error: {e}. Reconnecting in 1s...")
          await asyncio.sleep(1)
  \<close>
  The three socket functions share this loop; \<open>name\<close> is the word in the message.
\<close>

fun socket_loop ::
  "string \<Rightarrow> string \<Rightarrow> json \<Rightarrow> (string \<Rightarrow> exn + json) \<Rightarrow> 's handler \<Rightarrow> conn list \<Rightarrow> 's
    \<Rightarrow> effect list \<times> 's \<times> status" where
  "socket_loop name url handshake loads process_event [] s = ([], s, Running)"
| "socket_loop name url handshake loads process_event (c # cs) s =
     (case session url handshake loads process_event c s of
        (eff, s', None) \<Rightarrow>
          (case socket_loop name url handshake loads process_event cs s' of
             (eff2, s'', st) \<Rightarrow> (eff @ eff2, s'', st))
      | (eff, s', Some e) \<Rightarrow>
          if is_Exception e then
            (case socket_loop name url handshake loads process_event cs s' of
               (eff2, s'', st) \<Rightarrow>
                 (eff @ [Print (Connection_error name e), Sleep 1] @ eff2, s'', st))
          else (eff, s', Raised e))"


definition url_user :: string where
  "url_user = ''wss://ws-subscriptions-clob.polymarket.com/ws/user''"

definition url_live_data :: string where
  "url_live_data = ''wss://ws-live-data.polymarket.com''"


text \<open>
  Credentials (\<open>ApiCreds\<close>, declared in \<open>types/clob_types.py\<close>, not among the sources) are
  opaque: a type variable, with \<open>model_dump\<close> the serialization the function calls.
\<close>

definition user_socket ::
  "('c \<Rightarrow> json) \<Rightarrow> 'c \<Rightarrow> (string \<Rightarrow> exn + json) \<Rightarrow> 's handler \<Rightarrow> conn list \<Rightarrow> 's
    \<Rightarrow> effect list \<times> 's \<times> status" where
  "user_socket model_dump_by_alias creds loads process_event =
     socket_loop ''User'' url_user (JObj [(''auth'', model_dump_by_alias creds)])
       loads process_event"

subsection \<open>The LiveData handshake\<close>

text \<open>
  \<open>live_data_socket\<close> receives a list of dicts, which are objects the caller still holds,
  and assigns to a key of some of them after copying. To see what the caller's objects
  are afterwards the model has a store: a heap is the list of the dict objects allocated
  so far, an address is an index into it, and a new object is appended. The
  subscriptions are a list of addresses. (The values inside a subscription dict are not
  assigned to and are plain values here.)
\<close>

type_synonym heap = "dict list"

definition topic_is_clob_user :: "dict \<Rightarrow> bool" where
  "topic_is_clob_user sub = (map_of sub ''topic'' = Some (JStr ''clob_user''))"

text \<open>\<open>any(sub.get("topic") == "clob_user" for sub in subscriptions)\<close>\<close>

definition needs_auth :: "heap \<Rightarrow> nat list \<Rightarrow> bool" where
  "needs_auth h subscriptions = list_ex (\<lambda>sub. topic_is_clob_user (h ! sub)) subscriptions"

text \<open>
  \<^verbatim>\<open>
  subscriptions_with_creds = []
  for sub in subscriptions:
      if sub.get("topic") == "clob_user":
          sub_copy = sub.copy()
          sub_copy["clob_auth"] = creds.model_dump()
          subscriptions_with_creds.append(sub_copy)
      else:
          subscriptions_with_creds.append(sub)
  \<close>
  \<open>sub.copy()\<close> allocates; the assignment writes to the object at \<open>sub_copy\<close>.
\<close>

fun with_creds :: "json \<Rightarrow> heap \<Rightarrow> nat list \<Rightarrow> heap \<times> nat list" where
  "with_creds auth h [] = (h, [])"
| "with_creds auth h (sub # subs) =
     (if topic_is_clob_user (h ! sub) then
        (let sub_copy = length h;
             h1 = h @ [h ! sub];
             h2 = h1[sub_copy := AList.update ''clob_auth'' auth (h1 ! sub_copy)]
         in case with_creds auth h2 subs of (h3, rest) \<Rightarrow> (h3, sub_copy # rest))
      else
        (case with_creds auth h subs of (h3, rest) \<Rightarrow> (h3, sub # rest)))"

text \<open>
  Lines 206 to 227 of \<open>live_data_socket\<close>: the check for credentials and the payload. The
  result is the exception raised, or the heap and the subscription list of the payload.
\<close>

definition live_data_subscriptions ::
  "('c \<Rightarrow> json) \<Rightarrow> heap \<Rightarrow> nat list \<Rightarrow> 'c option \<Rightarrow> exn + heap \<times> nat list" where
  "live_data_subscriptions model_dump h subscriptions creds =
     (if needs_auth h subscriptions then
        (case creds of
           None \<Rightarrow> Inl AuthenticationRequiredError
         | Some c \<Rightarrow> Inr (with_creds (model_dump c) h subscriptions))
      else Inr (h, subscriptions))"

text \<open>The payload as \<open>json.dumps\<close> sees it when the frame is sent.\<close>

definition payload :: "heap \<Rightarrow> nat list \<Rightarrow> json" where
  "payload h subscriptions =
     JObj [(''action'', JStr ''subscribe''),
           (''subscriptions'', JArr (map (\<lambda>sub. JObj (h ! sub)) subscriptions))]"

definition live_data_socket ::
  "('c \<Rightarrow> json) \<Rightarrow> heap \<Rightarrow> nat list \<Rightarrow> (string \<Rightarrow> exn + json) \<Rightarrow> 's handler \<Rightarrow> 'c option
    \<Rightarrow> conn list \<Rightarrow> 's \<Rightarrow> effect list \<times> 's \<times> status" where
  "live_data_socket model_dump h subscriptions loads process_event creds env s =
     (case live_data_subscriptions model_dump h subscriptions creds of
        Inl e \<Rightarrow> ([], s, Raised e)
      | Inr (h', subscriptions') \<Rightarrow>
          socket_loop ''Live data'' url_live_data (payload h' subscriptions')
            loads process_event env s)"


section \<open>Properties of the decimal model\<close>

text \<open>The digit count of a coefficient against powers of ten.\<close>

lemma ndigits_pos: "0 < ndigits c"
  by (induction c rule: ndigits.induct) (subst ndigits.simps, simp)

lemma ndigits_less_pow: "c < 10 ^ ndigits c"
proof (induction c rule: ndigits.induct)
  case (1 n)
  show ?case
  proof (cases "n < 10")
    case True
    then show ?thesis by (subst ndigits.simps) simp
  next
    case False
    with 1 have "n div 10 < 10 ^ ndigits (n div 10)" by simp
    then have "n < 10 * 10 ^ ndigits (n div 10)" by (simp add: less_mult_imp_div_less mult.commute)
    with False show ?thesis by (subst ndigits.simps) simp
  qed
qed

lemma ndigits_ge_pow: "0 < c \<Longrightarrow> 10 ^ (ndigits c - 1) \<le> c"
proof (induction c rule: ndigits.induct)
  case (1 n)
  show ?case
  proof (cases "n < 10")
    case True
    with 1 show ?thesis by (subst ndigits.simps) simp
  next
    case False
    then have pos: "0 < n div 10" by simp
    with 1 False have "10 ^ (ndigits (n div 10) - 1) \<le> n div 10" by simp
    then have "10 * 10 ^ (ndigits (n div 10) - 1) \<le> n" by simp
    moreover have "0 < ndigits (n div 10)" by (rule ndigits_pos)
    ultimately have "10 ^ ndigits (n div 10) \<le> n"
      by (cases "ndigits (n div 10)") simp_all
    with False show ?thesis by (subst ndigits.simps) simp
  qed
qed

lemma ndigits_le_iff: "0 < n \<Longrightarrow> ndigits c \<le> n \<longleftrightarrow> c < 10 ^ n"
proof
  assume "ndigits c \<le> n"
  then have "(10::nat) ^ ndigits c \<le> 10 ^ n" by (simp add: power_increasing)
  then show "c < 10 ^ n" using ndigits_less_pow [of c] by (rule less_le_trans [rotated])
next
  assume n: "0 < n" and lt: "c < 10 ^ n"
  show "ndigits c \<le> n"
  proof (cases "c = 0")
    case True
    with n show ?thesis by (simp add: ndigits.simps)
  next
    case False
    then have "10 ^ (ndigits c - 1) \<le> c" using ndigits_ge_pow [of c] by simp
    with lt have "(10::nat) ^ (ndigits c - 1) < 10 ^ n" by linarith
    then have "ndigits c - 1 < n" by (rule power_less_imp_less_exp [rotated]) simp
    then show ?thesis by simp
  qed
qed

lemmas ctx_defs = prec_def Emax_def Emin_def Etiny_def Etop_def

text \<open>\<open>_fix\<close> leaves a value alone that already fits the context.\<close>

lemma decimal_fix_id:
  assumes "Etiny \<le> expo a" "adjusted a \<le> Emax" "int (ndigits (coeff a)) \<le> prec"
  shows "decimal_fix a = Inr a"
proof (cases "coeff a = 0")
  case True
  with assms have "expo a \<le> Emax" by (simp add: adjusted_def ndigits.simps)
  with True assms(1) have "decimal_fix a = Inr (Decimal (dsign a) 0 (expo a))"
    by (simp add: decimal_fix_def)
  with True show ?thesis by (cases a) simp
next
  case False
  with assms show ?thesis
    by (simp add: decimal_fix_def adjusted_def ctx_defs Let_def)
qed

lemma scaleb_one:
  assumes "0 \<le> d" "d \<le> 1000026"
  shows "scaleb (Decimal False 1 0) (- d) = Inr (Decimal False 1 (- d))"
proof -
  have "decimal_fix (Decimal False 1 (- d)) = Inr (Decimal False 1 (- d))"
    using assms by (intro decimal_fix_id) (simp_all add: adjusted_def ctx_defs ndigits.simps)
  with assms show ?thesis by (simp add: scaleb_def ctx_defs)
qed

text \<open>
  The library's replacement of a number far below the target exponent by \<open>1E(t-1)\<close>
  rounds as the number itself does.
\<close>

lemma split_digits_far:
  assumes "0 < c" "int (ndigits c) + e < t"
  shows "split_digits c e t = (0, 1, 10)"
    and "c div 10 ^ nat (t - e) = 0" and "c mod 10 ^ nat (t - e) = c"
    and "2 * c < 10 ^ nat (t - e)"
proof -
  show "split_digits c e t = (0, 1, 10)"
    using assms by (simp add: split_digits_def Let_def)
  have "ndigits c \<le> nat (t - e) - 1" using assms by simp
  then have "(10::nat) ^ ndigits c \<le> 10 ^ (nat (t - e) - 1)" by (simp add: power_increasing)
  with ndigits_less_pow [of c] have lt: "c < 10 ^ (nat (t - e) - 1)" by linarith
  have k: "nat (t - e) = Suc (nat (t - e) - 1)"
    using assms ndigits_pos [of c] by simp
  have "10 * c < 10 ^ nat (t - e)" using lt by (subst k) simp
  then show "2 * c < 10 ^ nat (t - e)" by simp
  then have "c < 10 ^ nat (t - e)" by simp
  then show "c div 10 ^ nat (t - e) = 0" and "c mod 10 ^ nat (t - e) = c" by simp_all
qed

lemma split_digits_near:
  assumes "\<not> int (ndigits c) + e < t"
  shows "split_digits c e t = (c div 10 ^ nat (t - e), c mod 10 ^ nat (t - e), 10 ^ nat (t - e))"
  using assms by (simp add: split_digits_def Let_def)

lemma pick_split:
  assumes "0 < c" "e < t"
  shows "(case split_digits c e t of (q, r, m) \<Rightarrow> (q, pick_rounding rnd s q r m)) =
         (c div 10 ^ nat (t - e),
          pick_rounding rnd s (c div 10 ^ nat (t - e)) (c mod 10 ^ nat (t - e)) (10 ^ nat (t - e)))"
proof (cases "int (ndigits c) + e < t")
  case True
  note far = split_digits_far [OF assms(1) True]
  from far(4) have ne: "2 * c \<noteq> 10 ^ nat (t - e)" "\<not> 10 ^ nat (t - e) \<le> 2 * c" by simp_all
  show ?thesis using assms(1) ne
    by (cases rnd) (simp_all add: far(1,2,3) round_down_digits_def round_half_up_digits_def)
next
  case False
  then show ?thesis by (simp add: split_digits_near)
qed

text \<open>\<open>_rescale\<close> in the three modes of the helpers is floor, ceiling and half-up.\<close>

lemma scaled_eq: "scaled x t = of_int (scoeff x) * 10 powi (expo x - t)"
  by (simp add: scaled_def dval_def power_int_diff power_int_minus field_simps)

lemma scaled_ge: "t \<le> expo x \<Longrightarrow> scaled x t = of_int (scoeff x * 10 ^ nat (expo x - t))"
  by (simp add: scaled_eq power_int_def)

lemma scaled_lt:
  "expo x < t \<Longrightarrow> scaled x t = of_int (scoeff x) / of_int (10 ^ nat (t - expo x))"
  by (simp add: scaled_eq power_int_def field_simps)

lemma dval_scaled: "dval x = scaled x t * 10 powi t"
  by (simp add: scaled_def power_int_minus)

lemma rescale_drop:
  assumes "0 < coeff x" "expo x < t"
  shows "rescale x t rnd =
    Decimal (dsign x)
      (if pick_rounding rnd (dsign x) (coeff x div 10 ^ nat (t - expo x))
            (coeff x mod 10 ^ nat (t - expo x)) (10 ^ nat (t - expo x)) = 1
       then coeff x div 10 ^ nat (t - expo x) + 1 else coeff x div 10 ^ nat (t - expo x)) t"
  using assms pick_split [OF assms, of rnd "dsign x"]
  by (auto simp: rescale_def split: prod.splits)

lemma neg_div_nat:
  fixes c m :: nat
  assumes "0 < m"
  shows "(- int c) div int m = (if c mod m = 0 then - int (c div m) else - int (c div m) - 1)"
proof (cases "c mod m = 0")
  case True
  have "int c = int m * int (c div m) + int (c mod m)"
    by (metis of_nat_add of_nat_mult mult_div_mod_eq)
  with True have "- int c = int m * (- int (c div m)) + 0" by simp
  then have "(- int c) div int m = - int (c div m)"
    using assms int_div_pos_eq [of "- int c" "int m" "- int (c div m)" 0] by simp
  with True show ?thesis by simp
next
  case False
  have r: "int (c mod m) < int m" using assms by simp
  have "int c = int m * int (c div m) + int (c mod m)"
    by (metis of_nat_add of_nat_mult mult_div_mod_eq)
  then have "- int c = int m * (- int (c div m) - 1) + (int m - int (c mod m))"
    by (simp add: algebra_simps)
  moreover have "0 \<le> int m - int (c mod m)" using r by simp
  moreover have "int m - int (c mod m) < int m" using False by simp
  ultimately have "(- int c) div int m = - int (c div m) - 1"
    by (rule int_div_pos_eq)
  with False show ?thesis by simp
qed

lemma rescale_floor:
  "rescale x t ROUND_FLOOR = Decimal (dsign x) (nat \<bar>\<lfloor>scaled x t\<rfloor>\<bar>) t"
proof (cases "coeff x = 0")
  case True
  then show ?thesis by (simp add: rescale_def scaled_eq scoeff_def)
next
  case nz: False
  show ?thesis
  proof (cases "t \<le> expo x")
    case True
    have "\<lfloor>scaled x t\<rfloor> = scoeff x * 10 ^ nat (expo x - t)"
      by (subst scaled_ge [OF True]) (rule floor_of_int)
    with nz True show ?thesis
      by (simp add: rescale_def scoeff_def abs_mult nat_mult_distrib nat_power_eq)
  next
    case False
    define m :: nat where "m = 10 ^ nat (t - expo x)"
    have m: "0 < m" by (simp add: m_def)
    have fl: "\<lfloor>scaled x t\<rfloor> = scoeff x div int m"
    proof -
      have "scaled x t = of_int (scoeff x) / of_int (int m)"
        using False by (simp add: scaled_lt m_def)
      then show ?thesis by (simp only: floor_divide_of_int_eq)
    qed
    have rs: "rescale x t ROUND_FLOOR =
      Decimal (dsign x)
        (if pick_rounding ROUND_FLOOR (dsign x) (coeff x div m) (coeff x mod m) m = 1
         then coeff x div m + 1 else coeff x div m) t"
      unfolding m_def using nz False by (intro rescale_drop) simp_all
    show ?thesis
    proof (cases "dsign x")
      case True
      then have "\<lfloor>scaled x t\<rfloor> =
          (if coeff x mod m = 0 then - int (coeff x div m) else - int (coeff x div m) - 1)"
        by (simp add: fl scoeff_def neg_div_nat [OF m])
      then have "nat \<bar>\<lfloor>scaled x t\<rfloor>\<bar> =
          (if coeff x mod m = 0 then coeff x div m else coeff x div m + 1)"
        by (simp split: if_splits)
      with True show ?thesis
        by (simp add: rs round_down_digits_def)
    next
      case pos: False
      then have "\<lfloor>scaled x t\<rfloor> = int (coeff x div m)"
        by (simp add: fl scoeff_def zdiv_int)
      with pos show ?thesis by (simp add: rs round_down_digits_def)
    qed
  qed
qed

lemma rescale_ceiling:
  "rescale x t ROUND_CEILING = Decimal (dsign x) (nat \<bar>\<lceil>scaled x t\<rceil>\<bar>) t"
proof (cases "coeff x = 0")
  case True
  then show ?thesis by (simp add: rescale_def scaled_eq scoeff_def)
next
  case nz: False
  show ?thesis
  proof (cases "t \<le> expo x")
    case True
    have "\<lceil>scaled x t\<rceil> = scoeff x * 10 ^ nat (expo x - t)"
      by (subst scaled_ge [OF True]) (rule ceiling_of_int)
    with nz True show ?thesis
      by (simp add: rescale_def scoeff_def abs_mult nat_mult_distrib nat_power_eq)
  next
    case False
    define m :: nat where "m = 10 ^ nat (t - expo x)"
    have m: "0 < m" by (simp add: m_def)
    have ce: "\<lceil>scaled x t\<rceil> = - ((- scoeff x) div int m)"
    proof -
      have "scaled x t = of_int (scoeff x) / of_int (int m)"
        using False by (simp add: scaled_lt m_def)
      then show ?thesis by (simp only: ceiling_divide_eq_div)
    qed
    have rs: "rescale x t ROUND_CEILING =
      Decimal (dsign x)
        (if pick_rounding ROUND_CEILING (dsign x) (coeff x div m) (coeff x mod m) m = 1
         then coeff x div m + 1 else coeff x div m) t"
      unfolding m_def using nz False by (intro rescale_drop) simp_all
    show ?thesis
    proof (cases "dsign x")
      case True
      then have "\<lceil>scaled x t\<rceil> = - int (coeff x div m)"
        by (simp add: ce scoeff_def zdiv_int)
      with True show ?thesis by (simp add: rs round_down_digits_def)
    next
      case pos: False
      then have "\<lceil>scaled x t\<rceil> =
          - (if coeff x mod m = 0 then - int (coeff x div m) else - int (coeff x div m) - 1)"
        by (simp add: ce scoeff_def neg_div_nat [OF m])
      then have "nat \<bar>\<lceil>scaled x t\<rceil>\<bar> =
          (if coeff x mod m = 0 then coeff x div m else coeff x div m + 1)"
        by (simp split: if_splits)
      with pos show ?thesis by (simp add: rs round_down_digits_def)
    qed
  qed
qed

lemma abs_half_up: "\<bar>half_up v\<bar> = \<lfloor>\<bar>v\<bar> + 1 / 2\<rfloor>"
proof (cases "0 \<le> v")
  case True
  then have "0 \<le> \<lfloor>v + 1 / 2\<rfloor>" by simp
  with True show ?thesis by (simp add: half_up_def)
next
  case False
  then have "0 \<le> \<lfloor>- v + 1 / 2\<rfloor>" by simp
  with False show ?thesis by (simp add: half_up_def)
qed

lemma half_div:
  fixes c m :: nat
  assumes "0 < m"
  shows "\<lfloor>rat_of_nat c / rat_of_nat m + 1 / 2\<rfloor> =
         int (c div m) + (if m \<le> 2 * (c mod m) then 1 else 0)"
proof -
  have "rat_of_nat c / rat_of_nat m + 1 / 2 = of_int (2 * int c + int m) / of_int (2 * int m)"
    using assms by (simp add: field_simps)
  then have fl: "\<lfloor>rat_of_nat c / rat_of_nat m + 1 / 2\<rfloor> = (2 * int c + int m) div (2 * int m)"
    by (simp only: floor_divide_of_int_eq)
  have c: "int c = int m * int (c div m) + int (c mod m)"
    by (metis of_nat_add of_nat_mult mult_div_mod_eq)
  have r: "int (c mod m) < int m" using assms by simp
  show ?thesis
  proof (cases "m \<le> 2 * (c mod m)")
    case True
    have "2 * int c + int m = 2 * int m * (int (c div m) + 1) + (2 * int (c mod m) - int m)"
      using c by (simp add: algebra_simps)
    moreover have "0 \<le> 2 * int (c mod m) - int m" using True by linarith
    moreover have "2 * int (c mod m) - int m < 2 * int m" using r by linarith
    ultimately have "(2 * int c + int m) div (2 * int m) = int (c div m) + 1"
      by (rule int_div_pos_eq)
    with True show ?thesis by (simp add: fl)
  next
    case False
    have "2 * int c + int m = 2 * int m * int (c div m) + (2 * int (c mod m) + int m)"
      using c by (simp add: algebra_simps)
    moreover have "0 \<le> 2 * int (c mod m) + int m" by simp
    moreover have "2 * int (c mod m) + int m < 2 * int m" using False by linarith
    ultimately have "(2 * int c + int m) div (2 * int m) = int (c div m)"
      by (rule int_div_pos_eq)
    with False show ?thesis by (simp add: fl)
  qed
qed

lemma rescale_half_up:
  "rescale x t ROUND_HALF_UP = Decimal (dsign x) (nat \<bar>half_up (scaled x t)\<bar>) t"
proof (cases "coeff x = 0")
  case True
  then show ?thesis by (simp add: rescale_def scaled_eq scoeff_def half_up_def)
next
  case nz: False
  show ?thesis
  proof (cases "t \<le> expo x")
    case True
    have "\<bar>scaled x t\<bar> = of_int (int (coeff x * 10 ^ nat (expo x - t)))"
      by (subst scaled_ge [OF True]) (simp add: scoeff_def abs_mult)
    then have "\<lfloor>\<bar>scaled x t\<bar> + 1 / 2\<rfloor> = int (coeff x * 10 ^ nat (expo x - t))"
      by (simp only: floor_eq_iff) simp
    with nz True show ?thesis
      by (simp add: rescale_def abs_half_up nat_mult_distrib nat_power_eq)
  next
    case False
    define m :: nat where "m = 10 ^ nat (t - expo x)"
    have m: "0 < m" by (simp add: m_def)
    have "\<bar>scaled x t\<bar> = rat_of_nat (coeff x) / rat_of_nat m"
      using False by (simp add: scaled_lt m_def scoeff_def abs_divide)
    then have "\<lfloor>\<bar>scaled x t\<bar> + 1 / 2\<rfloor> =
        int (coeff x div m) + (if m \<le> 2 * (coeff x mod m) then 1 else 0)"
      by (simp only: half_div [OF m])
    then have "nat \<bar>half_up (scaled x t)\<bar> =
        (if m \<le> 2 * (coeff x mod m) then coeff x div m + 1 else coeff x div m)"
      by (simp add: abs_half_up split: if_splits)
    moreover have "rescale x t ROUND_HALF_UP =
      Decimal (dsign x)
        (if pick_rounding ROUND_HALF_UP (dsign x) (coeff x div m) (coeff x mod m) m = 1
         then coeff x div m + 1 else coeff x div m) t"
      unfolding m_def using nz False by (intro rescale_drop) simp_all
    ultimately show ?thesis by (simp add: round_half_up_digits_def)
  qed
qed

text \<open>\<open>quantize\<close> returns the rescaled value or raises \<open>InvalidOperation\<close>.\<close>

lemma ndigits_gt_iff: "0 < n \<Longrightarrow> n < ndigits c \<longleftrightarrow> 10 ^ n \<le> c"
  using ndigits_le_iff [of n c] by auto

lemma expo_rescale [simp]: "expo (rescale x t rnd) = t"
  by (simp add: rescale_def split: prod.splits)

lemma dsign_rescale [simp]: "dsign (rescale x t rnd) = dsign x"
  by (simp add: rescale_def split: prod.splits)

lemma rescale_coeff_large:
  assumes nz: "0 < coeff x" and big: "prec < adjusted x - t + 1"
  shows "prec < int (ndigits (coeff (rescale x t rnd)))"
proof -
  define P :: nat where "P = 28"
  have P: "0 < P" "prec = int P" by (simp_all add: P_def prec_def)
  have goal: "P < ndigits c'" if "10 ^ P \<le> c'" for c'
    using that P ndigits_gt_iff [of P c'] by simp
  from big have len: "int P < int (ndigits (coeff x)) + expo x - t"
    by (simp add: adjusted_def P)
  show ?thesis
  proof (cases "t \<le> expo x")
    case True
    define j where "j = nat (expo x - t)"
    have lenj: "P < ndigits (coeff x) + j" using len True by (simp add: j_def)
    have "10 ^ P \<le> coeff x * 10 ^ j"
    proof (cases "P \<le> j")
      case True
      then have "(10::nat) ^ P \<le> 10 ^ j" by (simp add: power_increasing)
      also have "\<dots> \<le> coeff x * 10 ^ j" using nz by simp
      finally show ?thesis .
    next
      case False
      then have "0 < P - j" "P - j < ndigits (coeff x)" using lenj by simp_all
      then have "10 ^ (P - j) \<le> coeff x" by (simp add: ndigits_gt_iff)
      then have "10 ^ (P - j) * 10 ^ j \<le> coeff x * 10 ^ j" by simp
      moreover have "(10::nat) ^ (P - j) * 10 ^ j = 10 ^ P"
        using False by (simp add: power_add [symmetric])
      ultimately show ?thesis by simp
    qed
    then have "P < ndigits (coeff x * 10 ^ j)" by (rule goal)
    with nz True show ?thesis by (simp add: rescale_def j_def P)
  next
    case False
    define k where "k = nat (t - expo x)"
    have "P + k < ndigits (coeff x)" using len False by (simp add: k_def)
    then have "10 ^ (P + k) \<le> coeff x" using P by (simp add: ndigits_gt_iff)
    then have "10 ^ P * 10 ^ k \<le> coeff x" by (simp add: power_add)
    then have q: "10 ^ P \<le> coeff x div 10 ^ k"
      by (simp add: less_eq_div_iff_mult_less_eq)
    then have "P < ndigits (coeff x div 10 ^ k)" "P < ndigits (coeff x div 10 ^ k + 1)"
      by (auto intro!: goal)
    with nz False show ?thesis
      by (simp add: rescale_drop k_def P)
  qed
qed

lemma quantize_Inr:
  assumes "quantize x ex rnd = Inr r"
  shows "r = rescale x (expo ex) rnd"
proof (cases "coeff x = 0")
  case True
  have "decimal_fix (Decimal (dsign x) 0 (expo ex)) = Inr (Decimal (dsign x) 0 (expo ex))"
    if "Etiny \<le> expo ex" "expo ex \<le> Emax"
    using that by (intro decimal_fix_id) (simp_all add: adjusted_def ndigits.simps prec_def)
  with assms True show ?thesis
    by (auto simp: quantize_def rescale_def split: if_splits)
next
  case False
  define ans where "ans = rescale x (expo ex) rnd"
  from assms False have c: "Etiny \<le> expo ex" "adjusted ans \<le> Emax"
    "int (ndigits (coeff ans)) \<le> prec" and fx: "decimal_fix ans = Inr r"
    by (auto simp: quantize_def Let_def ans_def split: if_splits)
  have "decimal_fix ans = Inr ans"
    using c by (intro decimal_fix_id) (simp_all add: ans_def)
  with fx show ?thesis by (simp add: ans_def)
qed

lemma quantize_eq:
  assumes t: "Etiny \<le> expo ex" "expo ex \<le> 0"
  shows "quantize x ex rnd =
    (if int (ndigits (coeff (rescale x (expo ex) rnd))) \<le> prec
     then Inr (rescale x (expo ex) rnd) else Inl InvalidOperation)"
proof (cases "coeff x = 0")
  case True
  have "decimal_fix (Decimal (dsign x) 0 (expo ex)) = Inr (Decimal (dsign x) 0 (expo ex))"
    using t by (intro decimal_fix_id) (simp_all add: adjusted_def ndigits.simps ctx_defs)
  with True t show ?thesis
    by (simp add: quantize_def rescale_def ndigits.simps ctx_defs)
next
  case nz: False
  define ans where "ans = rescale x (expo ex) rnd"
  show ?thesis
  proof (cases "prec < adjusted x - expo ex + 1")
    case True
    with nz have "prec < int (ndigits (coeff ans))"
      unfolding ans_def by (intro rescale_coeff_large) simp_all
    with True nz t show ?thesis
      by (simp add: quantize_def ans_def [symmetric] Let_def)
  next
    case small: False
    with t have adj: "\<not> Emax < adjusted x" by (simp add: ctx_defs)
    show ?thesis
    proof (cases "int (ndigits (coeff ans)) \<le> prec")
      case True
      with t have a: "adjusted ans \<le> Emax" by (simp add: adjusted_def ans_def ctx_defs)
      have "decimal_fix ans = Inr ans"
        using t a True by (intro decimal_fix_id) (simp_all add: ans_def)
      with True nz t small adj a show ?thesis
        by (simp add: quantize_def ans_def [symmetric] Let_def ctx_defs)
    next
      case False
      with nz t small adj show ?thesis
        by (simp add: quantize_def ans_def [symmetric] Let_def ctx_defs)
    qed
  qed
qed

text \<open>The value of a rescaled decimal.\<close>

lemma scaled_sign: "dsign x \<Longrightarrow> scaled x t \<le> 0" "\<not> dsign x \<Longrightarrow> 0 \<le> scaled x t"
  by (simp_all add: scaled_eq scoeff_def mult_nonneg_nonneg mult_nonpos_nonneg)

lemma dval_Decimal_abs:
  assumes "s \<Longrightarrow> n \<le> 0" "\<not> s \<Longrightarrow> 0 \<le> n"
  shows "dval (Decimal s (nat \<bar>n\<bar>) t) = of_int n * 10 powi t"
  using assms by (cases s) (simp_all add: dval_def scoeff_def)

lemma dval_rescale_floor: "dval (rescale x t ROUND_FLOOR) = of_int \<lfloor>scaled x t\<rfloor> * 10 powi t"
  unfolding rescale_floor using scaled_sign [of x t]
  by (intro dval_Decimal_abs) (simp_all add: floor_le_zero zero_le_floor)

lemma dval_rescale_ceiling:
  "dval (rescale x t ROUND_CEILING) = of_int \<lceil>scaled x t\<rceil> * 10 powi t"
  unfolding rescale_ceiling using scaled_sign [of x t]
  by (intro dval_Decimal_abs) (simp_all add: ceiling_le_zero zero_le_ceiling)

lemma half_up_sign: "v \<le> 0 \<Longrightarrow> half_up v \<le> 0" "0 \<le> v \<Longrightarrow> 0 \<le> half_up v"
  by (auto simp: half_up_def)

lemma dval_rescale_half_up:
  "dval (rescale x t ROUND_HALF_UP) = of_int (half_up (scaled x t)) * 10 powi t"
  unfolding rescale_half_up using scaled_sign [of x t]
  by (intro dval_Decimal_abs) (simp_all add: half_up_sign)

lemma floor_le_half_up: "\<lfloor>v\<rfloor> \<le> half_up v"
  unfolding half_up_def by (auto simp: le_floor_iff) linarith+

lemma half_up_le_ceiling: "half_up v \<le> \<lceil>v\<rceil>"
  unfolding half_up_def by (auto simp: floor_le_iff ceiling_def) linarith+

text \<open>The helpers in closed form, for digit counts whose exponent \<open>1E-d\<close> is representable.\<close>

lemma round_down_eq:
  assumes "0 \<le> d" "d \<le> 1000026"
  shows "round_down x d =
    (if ndigits (nat \<bar>\<lfloor>dval x * 10 ^ nat d\<rfloor>\<bar>) \<le> 28
     then Inr (Decimal (dsign x) (nat \<bar>\<lfloor>dval x * 10 ^ nat d\<rfloor>\<bar>) (- d))
     else Inl InvalidOperation)"
proof -
  have sc: "scaled x (- d) = dval x * 10 ^ nat d"
    using assms by (simp add: scaled_def power_int_def)
  have "quantize x (Decimal False 1 (- d)) ROUND_FLOOR =
    (if int (ndigits (coeff (rescale x (- d) ROUND_FLOOR))) \<le> prec
     then Inr (rescale x (- d) ROUND_FLOOR) else Inl InvalidOperation)"
    using assms quantize_eq [of "Decimal False 1 (- d)" x ROUND_FLOOR] by (simp add: ctx_defs)
  then show ?thesis
    unfolding round_down_def scaleb_one [OF assms] by (simp add: rescale_floor sc prec_def)
qed

lemma round_up_eq:
  assumes "0 \<le> d" "d \<le> 1000026"
  shows "round_up x d =
    (if ndigits (nat \<bar>\<lceil>dval x * 10 ^ nat d\<rceil>\<bar>) \<le> 28
     then Inr (Decimal (dsign x) (nat \<bar>\<lceil>dval x * 10 ^ nat d\<rceil>\<bar>) (- d))
     else Inl InvalidOperation)"
proof -
  have sc: "scaled x (- d) = dval x * 10 ^ nat d"
    using assms by (simp add: scaled_def power_int_def)
  have "quantize x (Decimal False 1 (- d)) ROUND_CEILING =
    (if int (ndigits (coeff (rescale x (- d) ROUND_CEILING))) \<le> prec
     then Inr (rescale x (- d) ROUND_CEILING) else Inl InvalidOperation)"
    using assms quantize_eq [of "Decimal False 1 (- d)" x ROUND_CEILING] by (simp add: ctx_defs)
  then show ?thesis
    unfolding round_up_def scaleb_one [OF assms] by (simp add: rescale_ceiling sc prec_def)
qed

lemma round_normal_eq:
  assumes "0 \<le> d" "d \<le> 1000026"
  shows "round_normal x d =
    (if ndigits (nat \<bar>half_up (dval x * 10 ^ nat d)\<bar>) \<le> 28
     then Inr (Decimal (dsign x) (nat \<bar>half_up (dval x * 10 ^ nat d)\<bar>) (- d))
     else Inl InvalidOperation)"
proof -
  have sc: "scaled x (- d) = dval x * 10 ^ nat d"
    using assms by (simp add: scaled_def power_int_def)
  have "quantize x (Decimal False 1 (- d)) ROUND_HALF_UP =
    (if int (ndigits (coeff (rescale x (- d) ROUND_HALF_UP))) \<le> prec
     then Inr (rescale x (- d) ROUND_HALF_UP) else Inl InvalidOperation)"
    using assms quantize_eq [of "Decimal False 1 (- d)" x ROUND_HALF_UP] by (simp add: ctx_defs)
  then show ?thesis
    unfolding round_normal_def scaleb_one [OF assms] by (simp add: rescale_half_up sc prec_def)
qed

text \<open>Evaluating the helpers on numerals.\<close>

lemmas eval_defs = round_down_def round_normal_def round_up_def scaleb_def decimal_fix_def
  quantize_def rescale_def split_digits_def adjusted_def ctx_defs ndigits.simps
  round_down_digits_def round_half_up_digits_def Let_def

lemma round_down_0125: "round_down (Decimal False 125 (- 3)) 2 = Inr (Decimal False 12 (- 2))"
  by (simp add: eval_defs)
lemma round_up_0125: "round_up (Decimal False 125 (- 3)) 2 = Inr (Decimal False 13 (- 2))"
  by (simp add: eval_defs)
lemma round_down_0129: "round_down (Decimal False 129 (- 3)) 2 = Inr (Decimal False 12 (- 2))"
  by (simp add: eval_defs)
lemma round_up_0121: "round_up (Decimal False 121 (- 3)) 2 = Inr (Decimal False 13 (- 2))"
  by (simp add: eval_defs)
lemma round_normal_0125: "round_normal (Decimal False 125 (- 3)) 2 = Inr (Decimal False 13 (- 2))"
  by (simp add: eval_defs)
text \<open>Order of the results, for every digit count.\<close>

lemma round_down_le:
  assumes "round_down x d = Inr lo"
  shows "dval lo \<le> dval x"
proof -
  obtain ex where "quantize x ex ROUND_FLOOR = Inr lo"
    using assms by (auto simp: round_down_def split: sum.splits)
  then have "lo = rescale x (expo ex) ROUND_FLOOR" by (rule quantize_Inr)
  then have "dval lo = of_int \<lfloor>scaled x (expo ex)\<rfloor> * 10 powi expo ex"
    by (simp add: dval_rescale_floor)
  also have "\<dots> \<le> scaled x (expo ex) * 10 powi expo ex"
    by (intro mult_right_mono) simp_all
  also have "\<dots> = dval x" by (rule dval_scaled [symmetric])
  finally show ?thesis .
qed

lemma round_up_ge:
  assumes "round_up x d = Inr hi"
  shows "dval x \<le> dval hi"
proof -
  obtain ex where "quantize x ex ROUND_CEILING = Inr hi"
    using assms by (auto simp: round_up_def split: sum.splits)
  then have "hi = rescale x (expo ex) ROUND_CEILING" by (rule quantize_Inr)
  then have "dval hi = of_int \<lceil>scaled x (expo ex)\<rceil> * 10 powi expo ex"
    by (simp add: dval_rescale_ceiling)
  moreover have "scaled x (expo ex) * 10 powi expo ex \<le> of_int \<lceil>scaled x (expo ex)\<rceil> * 10 powi expo ex"
    by (intro mult_right_mono) simp_all
  ultimately show ?thesis by (simp add: dval_scaled [symmetric])
qed

lemma round_down_le_normal:
  assumes "round_down x d = Inr lo" "round_normal x d = Inr mid"
  shows "dval lo \<le> dval mid"
proof -
  obtain ex where ex: "scaleb (Decimal False 1 0) (- d) = Inr ex"
    using assms(1) by (auto simp: round_down_def split: sum.splits)
  with assms have "quantize x ex ROUND_FLOOR = Inr lo" "quantize x ex ROUND_HALF_UP = Inr mid"
    by (simp_all add: round_down_def round_normal_def)
  then have "lo = rescale x (expo ex) ROUND_FLOOR" "mid = rescale x (expo ex) ROUND_HALF_UP"
    by (simp_all add: quantize_Inr)
  then have "dval lo = of_int \<lfloor>scaled x (expo ex)\<rfloor> * 10 powi expo ex"
    "dval mid = of_int (half_up (scaled x (expo ex))) * 10 powi expo ex"
    by (simp_all add: dval_rescale_floor dval_rescale_half_up)
  then show ?thesis
    using floor_le_half_up [of "scaled x (expo ex)"] by (simp add: mult_right_mono)
qed

lemma round_normal_le_up:
  assumes "round_normal x d = Inr mid" "round_up x d = Inr hi"
  shows "dval mid \<le> dval hi"
proof -
  obtain ex where ex: "scaleb (Decimal False 1 0) (- d) = Inr ex"
    using assms(1) by (auto simp: round_normal_def split: sum.splits)
  with assms have "quantize x ex ROUND_CEILING = Inr hi" "quantize x ex ROUND_HALF_UP = Inr mid"
    by (simp_all add: round_up_def round_normal_def)
  then have "hi = rescale x (expo ex) ROUND_CEILING" "mid = rescale x (expo ex) ROUND_HALF_UP"
    by (simp_all add: quantize_Inr)
  then have "dval hi = of_int \<lceil>scaled x (expo ex)\<rceil> * 10 powi expo ex"
    "dval mid = of_int (half_up (scaled x (expo ex))) * 10 powi expo ex"
    by (simp_all add: dval_rescale_ceiling dval_rescale_half_up)
  then show ?thesis
    using half_up_le_ceiling [of "scaled x (expo ex)"] by (simp add: mult_right_mono)
qed

lemma small_roundings:
  fixes v :: rat
  assumes "\<bar>v\<bar> \<le> of_int N"
  shows "\<bar>\<lfloor>v\<rfloor>\<bar> \<le> N" "\<bar>\<lceil>v\<rceil>\<bar> \<le> N" "\<bar>half_up v\<bar> \<le> N"
proof -
  from assms have lo: "of_int (- N) \<le> v" and hi: "v \<le> of_int N" by simp_all
  from lo have "- N \<le> \<lfloor>v\<rfloor>" by (simp only: le_floor_iff)
  moreover from hi have "\<lceil>v\<rceil> \<le> N" by (simp only: ceiling_le_iff)
  moreover have "\<lfloor>v\<rfloor> \<le> \<lceil>v\<rceil>" by (rule floor_le_ceiling)
  moreover note floor_le_half_up [of v] half_up_le_ceiling [of v]
  ultimately show "\<bar>\<lfloor>v\<rfloor>\<bar> \<le> N" "\<bar>\<lceil>v\<rceil>\<bar> \<le> N" "\<bar>half_up v\<bar> \<le> N" by linarith+
qed

lemma ndigits_small: "\<bar>n\<bar> \<le> 10 ^ 28 - 1 \<Longrightarrow> ndigits (nat \<bar>n\<bar>) \<le> 28"
proof -
  assume "\<bar>n\<bar> \<le> 10 ^ 28 - 1"
  then have "\<bar>n\<bar> < int (10 ^ 28)" by simp
  then have "nat \<bar>n\<bar> < 10 ^ 28" by (simp only: nat_less_iff abs_ge_zero)
  then show ?thesis using ndigits_le_iff [of 28 "nat \<bar>n\<bar>"] by simp
qed

lemma rounds_return:
  assumes d: "0 \<le> d" "d \<le> 1000026" and small: "\<bar>dval x\<bar> * 10 ^ nat d \<le> 10 ^ 28 - 1"
  shows "\<exists>lo mid hi. round_down x d = Inr lo \<and> round_normal x d = Inr mid \<and> round_up x d = Inr hi"
proof -
  have "\<bar>dval x * 10 ^ nat d\<bar> \<le> rat_of_int (10 ^ 28 - 1)"
    using small by (simp add: abs_mult)
  note b = small_roundings [OF this]
  show ?thesis
    using ndigits_small [OF b(1)] ndigits_small [OF b(2)] ndigits_small [OF b(3)]
    by (simp add: round_down_eq [OF d] round_normal_eq [OF d] round_up_eq [OF d])
qed


section \<open>Claims about the rounding helpers\<close>

text \<open>
  Claim C7, as amended. For every finite decimal \<open>x\<close> and every digit count \<open>d\<close> with
  \<open>0 \<le> d \<le> 1000026\<close>, each of \<open>round_down\<close>, \<open>round_normal\<close> and \<open>round_up\<close> returns \<open>x\<close>
  quantized to exactly \<open>d\<close> fractional digits (exponent \<open>-d\<close>, the sign of \<open>x\<close>, and as
  coefficient the floor, the half-away-from-zero rounding or the ceiling of
  \<open>x * 10 ^ d\<close>, computed exactly), provided that coefficient has at most 28 digits, the
  precision of the decimal context; otherwise the helper raises \<open>InvalidOperation\<close>.
  The five examples of the claim hold.
\<close>

theorem round_helpers_quantize:
  "(0 \<le> d \<and> d \<le> 1000026 \<longrightarrow>
      round_down x d =
        (if ndigits (nat \<bar>\<lfloor>dval x * 10 ^ nat d\<rfloor>\<bar>) \<le> 28
         then Inr (Decimal (dsign x) (nat \<bar>\<lfloor>dval x * 10 ^ nat d\<rfloor>\<bar>) (- d))
         else Inl InvalidOperation) \<and>
      round_normal x d =
        (if ndigits (nat \<bar>half_up (dval x * 10 ^ nat d)\<bar>) \<le> 28
         then Inr (Decimal (dsign x) (nat \<bar>half_up (dval x * 10 ^ nat d)\<bar>) (- d))
         else Inl InvalidOperation) \<and>
      round_up x d =
        (if ndigits (nat \<bar>\<lceil>dval x * 10 ^ nat d\<rceil>\<bar>) \<le> 28
         then Inr (Decimal (dsign x) (nat \<bar>\<lceil>dval x * 10 ^ nat d\<rceil>\<bar>) (- d))
         else Inl InvalidOperation)) \<and>
   round_down (Decimal False 125 (- 3)) 2 = Inr (Decimal False 12 (- 2)) \<and>
   round_up (Decimal False 125 (- 3)) 2 = Inr (Decimal False 13 (- 2)) \<and>
   round_down (Decimal False 129 (- 3)) 2 = Inr (Decimal False 12 (- 2)) \<and>
   round_up (Decimal False 121 (- 3)) 2 = Inr (Decimal False 13 (- 2)) \<and>
   round_normal (Decimal False 125 (- 3)) 2 = Inr (Decimal False 13 (- 2))"
  using round_down_eq [of d x] round_normal_eq [of d x] round_up_eq [of d x] round_down_0125 round_up_0125 round_down_0129 round_up_0121
    round_normal_0125
  by blast

text \<open>The theorem at \<open>x = -0.125\<close>, \<open>d = 2\<close>, where the three modes differ in direction.\<close>

theorem round_helpers_quantize_witness:
  "(0::int) \<le> 2 \<and> (2::int) \<le> 1000026 \<and>
   round_normal (Decimal True 125 (- 3)) 2 = Inr (Decimal True 13 (- 2)) \<and>
   round_down (Decimal True 125 (- 3)) 2 = Inr (Decimal True 13 (- 2)) \<and>
   round_up (Decimal True 125 (- 3)) 2 = Inr (Decimal True 12 (- 2))"
proof -
  have v: "dval (Decimal True 125 (- 3)) * 10 ^ nat 2 = - (25 / 2)"
    by (simp add: dval_def scoeff_def)
  have fl: "\<lfloor>- (25 / 2) :: rat\<rfloor> = - 13"
    by (rule floor_unique) simp_all
  have ce: "\<lceil>- (25 / 2) :: rat\<rceil> = - 12"
    by (rule ceiling_unique) simp_all
  have hu: "\<lfloor>25 / 2 + 1 / 2 :: rat\<rfloor> = 13"
    by (rule floor_unique) simp_all
  have f: "nat \<bar>\<lfloor>- (25 / 2) :: rat\<rfloor>\<bar> = 13" "nat \<bar>\<lceil>- (25 / 2) :: rat\<rceil>\<bar> = 12"
    "nat \<bar>half_up (- (25 / 2))\<bar> = 13"
    by (simp_all add: half_up_def fl ce hu)
  have n: "ndigits 13 \<le> 28" "ndigits 12 \<le> 28"
    by (simp_all add: ndigits.simps)
  from round_helpers_quantize [of 2 "Decimal True 125 (- 3)"] show ?thesis
    unfolding v f using n by simp
qed

text \<open>
  Claim C7 as stated fails: \<open>0.1\<close> cannot be given 30 fractional digits within the
  28 digits of the context, and \<open>round_down(Decimal("0.1"), 30)\<close> raises. Beyond
  \<open>d = 1000026\<close> the exponent \<open>1E-d\<close> underflows to \<open>0E-1000026\<close> in \<open>scaleb\<close>, and zero
  is returned with 1000026 fractional digits, not \<open>d\<close>.
\<close>

theorem round_down_too_many_digits:
  "round_down (Decimal False 1 (- 1)) 30 = Inl InvalidOperation \<and>
   round_down (Decimal False 0 0) 1000027 = Inr (Decimal False 0 (- 1000026))"
  by (simp add: eval_defs)

text \<open>
  Claim C10, as amended. Whenever \<open>round_down\<close> returns, its result is at most \<open>x\<close>;
  whenever \<open>round_up\<close> returns, its result is at least \<open>x\<close>; whenever two of the three
  helpers return, their results are ordered \<open>round_down \<le> round_normal \<le> round_up\<close>; and
  all three return when \<open>0 \<le> d \<le> 1000026\<close> and \<open>|x| * 10 ^ d \<le> 10 ^ 28 - 1\<close>.
\<close>

theorem rounding_bounds:
  "(round_down x d = Inr lo \<longrightarrow> dval lo \<le> dval x) \<and>
   (round_up x d = Inr hi \<longrightarrow> dval x \<le> dval hi) \<and>
   (round_down x d = Inr lo \<and> round_normal x d = Inr mid \<longrightarrow> dval lo \<le> dval mid) \<and>
   (round_normal x d = Inr mid \<and> round_up x d = Inr hi \<longrightarrow> dval mid \<le> dval hi) \<and>
   (0 \<le> d \<and> d \<le> 1000026 \<and> \<bar>dval x\<bar> * 10 ^ nat d \<le> 10 ^ 28 - 1 \<longrightarrow>
      (\<exists>lo mid hi. round_down x d = Inr lo \<and> round_normal x d = Inr mid \<and>
         round_up x d = Inr hi))"
  using round_down_le [of x d lo] round_up_ge [of x d hi] round_down_le_normal [of x d lo mid]
    round_normal_le_up [of x d mid hi] rounds_return [of d x]
  by blast

text \<open>The theorem at \<open>x = 0.125\<close>, \<open>d = 2\<close>.\<close>

theorem rounding_bounds_witness:
  "round_down (Decimal False 125 (- 3)) 2 = Inr (Decimal False 12 (- 2)) \<and>
   round_normal (Decimal False 125 (- 3)) 2 = Inr (Decimal False 13 (- 2)) \<and>
   round_up (Decimal False 125 (- 3)) 2 = Inr (Decimal False 13 (- 2)) \<and>
   dval (Decimal False 12 (- 2)) \<le> dval (Decimal False 125 (- 3)) \<and>
   dval (Decimal False 125 (- 3)) \<le> dval (Decimal False 13 (- 2)) \<and>
   dval (Decimal False 12 (- 2)) \<le> dval (Decimal False 13 (- 2)) \<and>
   (0::int) \<le> 2 \<and> (2::int) \<le> 1000026 \<and>
   \<bar>dval (Decimal False 125 (- 3))\<bar> * 10 ^ nat 2 \<le> 10 ^ 28 - 1"
proof -
  have r: "round_down (Decimal False 125 (- 3)) 2 = Inr (Decimal False 12 (- 2))"
    "round_normal (Decimal False 125 (- 3)) 2 = Inr (Decimal False 13 (- 2))"
    "round_up (Decimal False 125 (- 3)) 2 = Inr (Decimal False 13 (- 2))"
    by (simp_all add: eval_defs)
  have s: "\<bar>dval (Decimal False 125 (- 3))\<bar> * 10 ^ nat 2 \<le> 10 ^ 28 - 1"
    by (simp add: dval_def scoeff_def)
  from rounding_bounds [of "Decimal False 125 (- 3)" 2 "Decimal False 12 (- 2)"
      "Decimal False 13 (- 2)" "Decimal False 13 (- 2)"] r s
  show ?thesis by simp
qed

text \<open>
  Claim C10 as stated fails where the helpers raise: for \<open>x = 1\<close> and \<open>d = 28\<close> neither
  bound exists.
\<close>

theorem round_up_raises_at_precision:
  "round_down (Decimal False 1 0) 28 = Inl InvalidOperation \<and>
   round_up (Decimal False 1 0) 28 = Inl InvalidOperation"
  by (simp add: eval_defs)

section \<open>Properties of comparison and of the tick grid\<close>

lemma dval_aligned:
  assumes "m \<le> expo a"
  shows "dval a = of_int (scoeff a * 10 ^ nat (expo a - m)) * 10 powi m"
proof -
  have "(10::rat) powi (expo a - m) * 10 powi m = 10 powi ((expo a - m) + m)"
    by (rule power_int_add [symmetric]) simp
  moreover have "(10::rat) powi (expo a - m) = 10 ^ nat (expo a - m)"
    using assms by (simp add: power_int_def)
  ultimately have "(10::rat) powi expo a = 10 ^ nat (expo a - m) * 10 powi m" by simp
  then show ?thesis by (simp add: dval_def)
qed

lemma dec_le_iff: "dec_le a b \<longleftrightarrow> dval a \<le> dval b"
proof -
  define m where "m = min (expo a) (expo b)"
  have m: "m \<le> expo a" "m \<le> expo b" by (simp_all add: m_def)
  have pos: "0 < (10::rat) powi m" by simp
  have "dval a \<le> dval b \<longleftrightarrow>
      rat_of_int (scoeff a * 10 ^ nat (expo a - m)) \<le> of_int (scoeff b * 10 ^ nat (expo b - m))"
    unfolding dval_aligned [OF m(1)] dval_aligned [OF m(2)]
    using pos by (simp only: mult_le_cancel_right_pos)
  also have "\<dots> \<longleftrightarrow> dec_le a b"
    unfolding dec_le_def Let_def m_def [symmetric] by (simp only: of_int_le_iff)
  finally show ?thesis by simp
qed

lemma one_minus_tick:
  "dec_sub (Decimal False 1 0) (Decimal_of Tick_0_1) = Inr (Decimal False 9 (- 1))"
  "dec_sub (Decimal False 1 0) (Decimal_of Tick_0_01) = Inr (Decimal False 99 (- 2))"
  "dec_sub (Decimal False 1 0) (Decimal_of Tick_0_001) = Inr (Decimal False 999 (- 3))"
  "dec_sub (Decimal False 1 0) (Decimal_of Tick_0_0001) = Inr (Decimal False 9999 (- 4))"
  by (simp_all add: dec_sub_def scoeff_def decimal_fix_def ndigits.simps Let_def
      prec_def Emax_def Emin_def Etiny_def Etop_def)

lemma one_minus_tick_val:
  "\<exists>u. dec_sub (Decimal False 1 0) (Decimal_of t) = Inr u \<and> dval u = 1 - dval (Decimal_of t)"
proof (cases t)
  case Tick_0_1
  have "dval (Decimal False 9 (- 1)) = 1 - dval (Decimal_of Tick_0_1)"
    by (simp add: dval_def scoeff_def)
  with one_minus_tick(1) show ?thesis unfolding Tick_0_1 by blast
next
  case Tick_0_01
  have "dval (Decimal False 99 (- 2)) = 1 - dval (Decimal_of Tick_0_01)"
    by (simp add: dval_def scoeff_def)
  with one_minus_tick(2) show ?thesis unfolding Tick_0_01 by blast
next
  case Tick_0_001
  have "dval (Decimal False 999 (- 3)) = 1 - dval (Decimal_of Tick_0_001)"
    by (simp add: dval_def scoeff_def)
  with one_minus_tick(3) show ?thesis unfolding Tick_0_001 by blast
next
  case Tick_0_0001
  have "dval (Decimal False 9999 (- 4)) = 1 - dval (Decimal_of Tick_0_0001)"
    by (simp add: dval_def scoeff_def)
  with one_minus_tick(4) show ?thesis unfolding Tick_0_0001 by blast
qed



section \<open>Claims about price bounds and the orderbook hash\<close>

text \<open>
  Claim C6. For every (finite) decimal price and every tick size of the grid,
  \<open>price_valid\<close> returns true exactly when \<open>tick_size \<le> price \<le> 1 - tick_size\<close>, both ends
  included; \<open>0.01\<close> and \<open>0.99\<close> are valid for the tick \<open>0.01\<close>, \<open>0.009\<close> and \<open>0.991\<close> are not.
  The right-hand side compares exact rational values; \<open>price_valid\<close> compares the
  decimals as the library does and computes \<open>1 - tick_size\<close> in the decimal context.
\<close>

theorem price_valid_bounds:
  "price_valid price tick_size =
     Inr (dval (Decimal_of tick_size) \<le> dval price \<and>
          dval price \<le> 1 - dval (Decimal_of tick_size)) \<and>
   price_valid (Decimal False 1 (- 2)) Tick_0_01 = Inr True \<and>
   price_valid (Decimal False 99 (- 2)) Tick_0_01 = Inr True \<and>
   price_valid (Decimal False 9 (- 3)) Tick_0_01 = Inr False \<and>
   price_valid (Decimal False 991 (- 3)) Tick_0_01 = Inr False"
proof -
  have gen: "price_valid p t =
     Inr (dval (Decimal_of t) \<le> dval p \<and> dval p \<le> 1 - dval (Decimal_of t))" for p t
  proof -
    obtain u where u: "dec_sub (Decimal False 1 0) (Decimal_of t) = Inr u"
      and "dval u = 1 - dval (Decimal_of t)"
      using one_minus_tick_val by blast
    then show ?thesis unfolding price_valid_def u by (simp add: dec_le_iff)
  qed
  have v: "dval (Decimal_of Tick_0_01) = 1 / 100" "dval (Decimal False 1 (- 2)) = 1 / 100"
    "dval (Decimal False 99 (- 2)) = 99 / 100" "dval (Decimal False 9 (- 3)) = 9 / 1000"
    "dval (Decimal False 991 (- 3)) = 991 / 1000"
    by (simp_all add: dval_def scoeff_def)
  show ?thesis unfolding gen v by simp
qed

text \<open>
  Claim C5. \<open>generate_orderbook_summary_hash\<close> returns the SHA-1 hex digest of the
  serialization of the snapshot with its hash field set to the empty string; the result
  does not depend on the stored hash; the snapshot the caller holds afterwards equals the
  one passed in; and a second call on it returns the same pair.
\<close>

theorem orderbook_hash_ignores_stored_hash:
  "snd (generate_orderbook_summary_hash sha1_hexdigest model_dump_json orderbook) =
     sha1_hexdigest (model_dump_json (orderbook\<lparr>hash := ''''\<rparr>)) \<and>
   snd (generate_orderbook_summary_hash sha1_hexdigest model_dump_json (orderbook\<lparr>hash := h\<rparr>)) =
     snd (generate_orderbook_summary_hash sha1_hexdigest model_dump_json orderbook) \<and>
   fst (generate_orderbook_summary_hash sha1_hexdigest model_dump_json orderbook) = orderbook \<and>
   generate_orderbook_summary_hash sha1_hexdigest model_dump_json
     (fst (generate_orderbook_summary_hash sha1_hexdigest model_dump_json orderbook)) =
     generate_orderbook_summary_hash sha1_hexdigest model_dump_json orderbook"
  by (simp add: generate_orderbook_summary_hash_def Let_def)

section \<open>Properties of the websocket client\<close>

lemma market_items_prefix:
  assumes "\<forall>d\<in>set good. valid OrderBookSummaryEvent d" "\<not> valid OrderBookSummaryEvent bad"
  shows "market_items valid (map JObj good @ JObj bad # rest) =
    (map (Event OrderBookSummaryEvent) good, Some AttributeError)"
  using assms by (induction good) (simp_all add: construct_def getattr_text_def)

lemma market_items_all_valid:
  assumes "\<forall>d\<in>set good. valid OrderBookSummaryEvent d"
  shows "market_items valid (map JObj good) = (map (Event OrderBookSummaryEvent) good, None)"
  using assms by (induction good) (simp_all add: construct_def)

lemma market_event_unknown_printed:
  "map_of d ''event_type'' = Some t \<Longrightarrow> t \<noteq> JStr ''book'' \<Longrightarrow> t \<noteq> JStr ''price_change'' \<Longrightarrow>
   t \<noteq> JStr ''tick_size_change'' \<Longrightarrow> t \<noteq> JStr ''last_trade_price'' \<Longrightarrow>
     process_market_event valid (JObj d) = ([Message (JObj d)], None)"
  by (simp add: process_market_event_def market_body_def subscript_def)

lemma with_creds_spec:
  assumes "\<forall>sub\<in>set subs. sub < length h" "with_creds auth h subs = (h', subs')"
  shows "(\<exists>new. h' = h @ new) \<and>
         map ((!) h') subs' =
           map (\<lambda>sub. if topic_is_clob_user (h ! sub)
                       then AList.update ''clob_auth'' auth (h ! sub) else h ! sub) subs"
  using assms
proof (induction subs arbitrary: h h' subs')
  case Nil
  then show ?case by simp
next
  case (Cons sub subs)
  let ?f = "\<lambda>h sub. if topic_is_clob_user (h ! sub)
                       then AList.update ''clob_auth'' auth (h ! sub) else h ! sub"
  from Cons.prems have sub: "sub < length h" and subs: "\<forall>s\<in>set subs. s < length h" by simp_all
  show ?case
  proof (cases "topic_is_clob_user (h ! sub)")
    case True
    define h2 where "h2 = h @ [AList.update ''clob_auth'' auth (h ! sub)]"
    obtain h3 rest where r: "with_creds auth h2 subs = (h3, rest)" by force
    from Cons.prems(2) True r have res: "h' = h3" "subs' = length h # rest"
      by (simp_all add: Let_def h2_def)
    from subs have subs2: "\<forall>s\<in>set subs. s < length h2" by (auto simp: h2_def)
    from Cons.IH [OF subs2 r] obtain new where h3: "h3 = h2 @ new"
      and m: "map ((!) h3) rest = map (?f h2) subs" by blast
    have same: "map (?f h2) subs = map (?f h) subs"
      using subs by (intro map_cong) (simp_all add: h2_def nth_append)
    have "h3 ! length h = AList.update ''clob_auth'' auth (h ! sub)"
      by (simp add: h3 h2_def nth_append)
    with True m same h3 show ?thesis by (simp add: res h2_def)
  next
    case False
    obtain h3 rest where r: "with_creds auth h subs = (h3, rest)" by force
    from Cons.prems(2) False r have res: "h' = h3" "subs' = sub # rest" by simp_all
    from Cons.IH [OF subs r] obtain new where h3: "h3 = h @ new"
      and m: "map ((!) h3) rest = map (?f h) subs" by blast
    have "h3 ! sub = h ! sub" using sub by (simp add: h3 nth_append)
    with False m h3 show ?thesis by (simp add: res)
  qed
qed

lemma with_creds_extends:
  "with_creds auth h subs = (h', subs') \<Longrightarrow> \<exists>new. h' = h @ new"
proof (induction subs arbitrary: h h' subs')
  case Nil
  then show ?case by simp
next
  case (Cons sub subs)
  show ?case
  proof (cases "topic_is_clob_user (h ! sub)")
    case True
    define h2 where "h2 = h @ [AList.update ''clob_auth'' auth (h ! sub)]"
    obtain h3 rest where r: "with_creds auth h2 subs = (h3, rest)" by force
    from Cons.prems True r have "h' = h3" by (simp add: Let_def h2_def)
    with Cons.IH [OF r] show ?thesis by (auto simp: h2_def)
  next
    case False
    obtain h3 rest where r: "with_creds auth h subs = (h3, rest)" by force
    from Cons.prems False r have "h' = h3" by simp
    with Cons.IH [OF r] show ?thesis by simp
  qed
qed

lemma live_data_subscriptions_extends:
  assumes "live_data_subscriptions model_dump h subs creds = Inr (h', subs')"
  shows "\<exists>new. h' = h @ new"
  using assms with_creds_extends [of _ h subs h' subs']
  by (auto simp: live_data_subscriptions_def split: if_splits option.splits)

lemma socket_loop_raised_connects:
  "socket_loop name url hs loads pe env s = (eff, s', Raised e) \<Longrightarrow> Connect url \<in> set eff"
proof (induction env arbitrary: s eff s')
  case Nil
  then show ?case by simp
next
  case (Cons c cs)
  obtain eff1 s1 r1 where se: "session url hs loads pe c s = (eff1, s1, r1)"
    by (cases "session url hs loads pe c s") auto
  then have c1: "Connect url \<in> set eff1"
    by (auto simp: session_def split: option.splits prod.splits)
  obtain eff2 s2 st2 where lo: "socket_loop name url hs loads pe cs s1 = (eff2, s2, st2)"
    by (cases "socket_loop name url hs loads pe cs s1") auto
  from Cons.prems se lo c1 show ?case
    by (auto split: option.splits if_splits)
qed


lemma receive_handler_exception:
  "loads m = Inr data \<Longrightarrow> pe s data = (out, s', Some e) \<Longrightarrow> is_Exception e \<Longrightarrow>
     receive loads pe m s =
       (map Print out @ [Print (if e = JSONDecodeError then Failed_to_decode m
                                else Error_processing e)], s', None)"
  by (simp add: receive_def)




text \<open>What a socket function sends, and how its run follows the receive loop.\<close>

lemma listen_only_prints:
  "listen loads pe ms s = (eff, s', r) \<Longrightarrow> x \<in> set eff \<Longrightarrow> \<exists>p. x = Print p"
proof (induction ms arbitrary: s eff s' r)
  case Nil
  then show ?case by simp
next
  case (Cons m ms)
  obtain eff1 s1 r1 where rc: "receive loads pe m s = (eff1, s1, r1)"
    by (cases "receive loads pe m s") auto
  have p1: "\<exists>p. y = Print p" if "y \<in> set eff1" for y
    using rc that by (auto simp: receive_def split: sum.splits prod.splits option.splits if_splits)
  show ?case
  proof (cases r1)
    case (Some e)
    with Cons.prems rc p1 show ?thesis by auto
  next
    case None
    obtain eff2 s2 r2 where l: "listen loads pe ms s1 = (eff2, s2, r2)"
      by (cases "listen loads pe ms s1") auto
    with Cons.prems rc None have "eff = eff1 @ eff2" by simp
    with Cons.prems(2) p1 Cons.IH [OF l] show ?thesis by auto
  qed
qed

lemma session_sends:
  "session url hs loads pe c s = (eff, s', r) \<Longrightarrow> Send j \<in> set eff \<Longrightarrow> j = hs"
proof -
  assume a: "session url hs loads pe c s = (eff, s', r)" and j: "Send j \<in> set eff"
  obtain effl sl rl where l: "listen loads pe (frames c) s = (effl, sl, rl)"
    by (cases "listen loads pe (frames c) s") auto
  have "Send j \<notin> set effl" using listen_only_prints [OF l, of "Send j"] by auto
  with a j l show ?thesis
    by (auto simp: session_def split: option.splits)
qed

lemma socket_loop_sends:
  "socket_loop name url hs loads pe env s = (eff, s', st) \<Longrightarrow> Send j \<in> set eff \<Longrightarrow> j = hs"
proof (induction env arbitrary: s eff s' st)
  case Nil
  then show ?case by simp
next
  case (Cons c cs)
  obtain eff1 s1 r1 where se: "session url hs loads pe c s = (eff1, s1, r1)"
    by (cases "session url hs loads pe c s") auto
  obtain eff2 s2 st2 where lo: "socket_loop name url hs loads pe cs s1 = (eff2, s2, st2)"
    by (cases "socket_loop name url hs loads pe cs s1") auto
  from Cons.prems se lo have "Send j \<in> set eff1 \<or> Send j \<in> set eff2"
    by (auto split: option.splits if_splits)
  then show ?case using session_sends [OF se] Cons.IH [OF lo] by blast
qed

lemma socket_loop_handshake_first:
  "\<exists>eff s' st. socket_loop name url hs loads pe (Conn None None fs cl # env) s =
     (Connect url # Send hs # eff, s', st)"
proof -
  obtain effl sl rl where l: "listen loads pe fs s = (effl, sl, rl)"
    by (cases "listen loads pe fs s") auto
  obtain eff2 s2 st2 where lo: "socket_loop name url hs loads pe env sl = (eff2, s2, st2)"
    by (cases "socket_loop name url hs loads pe env sl") auto
  show ?thesis using l lo
    by (cases rl; cases cl) (auto simp: session_def)
qed



lemma live_data_payload_spec:
  assumes wf: "\<forall>sub\<in>set subs. sub < length h"
  shows "\<exists>h' subs'. live_data_subscriptions model_dump h subs (Some c) = Inr (h', subs') \<and>
        payload h' subs' =
          JObj [(''action'', JStr ''subscribe''),
                (''subscriptions'',
                 JArr (map (\<lambda>sub. JObj (if topic_is_clob_user (h ! sub)
                                          then AList.update ''clob_auth'' (model_dump c) (h ! sub)
                                          else h ! sub)) subs))]"
proof -
  let ?f = "\<lambda>sub. if topic_is_clob_user (h ! sub)
                   then AList.update ''clob_auth'' (model_dump c) (h ! sub) else h ! sub"
  show ?thesis
  proof (cases "needs_auth h subs")
    case True
    obtain h' subs' where r: "with_creds (model_dump c) h subs = (h', subs')" by force
    from with_creds_spec [OF wf r] have "map ((!) h') subs' = map ?f subs" by blast
    then have "map (\<lambda>sub. JObj (h' ! sub)) subs' = map (\<lambda>sub. JObj (?f sub)) subs"
      using map_map [of JObj "(!) h'" subs'] map_map [of JObj ?f subs] by (simp add: comp_def)
    with True r show ?thesis by (simp add: live_data_subscriptions_def payload_def)
  next
    case False
    then have "\<forall>sub\<in>set subs. \<not> topic_is_clob_user (h ! sub)"
      by (simp add: needs_auth_def list_ex_iff)
    then have "map (\<lambda>sub. JObj (h ! sub)) subs = map (\<lambda>sub. JObj (?f sub)) subs"
      by (intro map_cong) simp_all
    with False show ?thesis by (simp add: live_data_subscriptions_def payload_def)
  qed
qed


section \<open>Claims about the websocket client\<close>

text \<open>
  Claim C1 (the code departs from it). In an array-valued Market frame the elements
  before the first malformed one are decoded and printed in order; at the malformed
  element the handler of the \<open>ValidationError\<close> reads \<open>item.text\<close> on a dict, the
  \<open>AttributeError\<close> leaves \<open>_process_market_event\<close>, and the elements after it are never
  decoded, whatever they are.
\<close>

theorem market_array_stops_at_malformed:
  "(\<forall>d\<in>set good. valid OrderBookSummaryEvent d) \<and> \<not> valid OrderBookSummaryEvent bad \<longrightarrow>
     process_market_event valid (JArr (map JObj good @ JObj bad # rest)) =
       (map (Event OrderBookSummaryEvent) good, Some AttributeError)"
  by (simp add: process_market_event_def market_body_def market_items_prefix)

text \<open>
  The theorem on a frame of three snapshots, the second malformed: one event is printed,
  not two, and no validation report.
\<close>

theorem market_array_stops_at_malformed_witness:
  "map_of [(''event_type'', JStr ''book'')] ''event_type'' = Some (JStr ''book'') \<and>
   map_of [] ''event_type'' \<noteq> Some (JStr ''book'') \<and>
   process_market_event (\<lambda>m d. map_of d ''event_type'' = Some (JStr ''book''))
     (JArr [JObj [(''event_type'', JStr ''book'')], JObj [],
            JObj [(''event_type'', JStr ''book'')]]) =
     ([Event OrderBookSummaryEvent [(''event_type'', JStr ''book'')]], Some AttributeError)"
  using market_array_stops_at_malformed [of "[[(''event_type'', JStr ''book'')]]"
      "\<lambda>m d. map_of d ''event_type'' = Some (JStr ''book'')"
      "[]" "[JObj [(''event_type'', JStr ''book'')]]"]
  by simp

text \<open>
  Claim C2 (the code departs from it). A User-channel object whose \<open>event_type\<close> is
  neither \<open>"order"\<close> nor \<open>"trade"\<close> is dropped: nothing is printed and nothing is raised.
  (The Market handler prints such a message, see \<open>market_event_unknown_printed\<close>.)
\<close>

theorem user_event_unknown_dropped:
  "map_of d ''event_type'' = Some t \<and> t \<noteq> JStr ''order'' \<and> t \<noteq> JStr ''trade'' \<longrightarrow>
     process_user_event valid (JObj d) = ([], None)"
  by (simp add: process_user_event_def user_body_def subscript_def)

text \<open>The theorem at \<open>{"event_type": "foo"}\<close>.\<close>

theorem user_event_unknown_dropped_witness:
  "map_of [(''event_type'', JStr ''foo'')] ''event_type'' = Some (JStr ''foo'') \<and>
   JStr ''foo'' \<noteq> JStr ''order'' \<and> JStr ''foo'' \<noteq> JStr ''trade'' \<and>
   process_user_event (\<lambda>m d. True) (JObj [(''event_type'', JStr ''foo'')]) = ([], None)"
  using user_event_unknown_dropped [of "[(''event_type'', JStr ''foo'')]" "JStr ''foo''"
      "\<lambda>m d. True"]
  by simp

text \<open>
  Claim C3. When some subscription has the topic \<open>clob_user\<close> and no credentials are
  passed, \<open>live_data_socket\<close> raises \<open>AuthenticationRequiredError\<close> with no effect at all,
  so without a connection attempt, whatever the network would have delivered. It is the
  only exception the setup raises, it is raised in this case only, and an exception that
  leaves \<open>live_data_socket\<close> before any connection attempt is this one.
\<close>

theorem live_data_requires_credentials:
  "(sub \<in> set subs \<and> topic_is_clob_user (h ! sub) \<longrightarrow>
      live_data_socket model_dump h subs loads process_event None env s =
        ([], s, Raised AuthenticationRequiredError)) \<and>
   (live_data_subscriptions model_dump h subs creds = Inl e \<longrightarrow>
      e = AuthenticationRequiredError \<and> creds = None \<and> needs_auth h subs) \<and>
   (live_data_socket model_dump h subs loads process_event creds env s = (eff, s', Raised e) \<and>
      Connect url_live_data \<notin> set eff \<longrightarrow> e = AuthenticationRequiredError)"
proof (intro conjI impI)
  assume "sub \<in> set subs \<and> topic_is_clob_user (h ! sub)"
  then have "needs_auth h subs" by (auto simp: needs_auth_def list_ex_iff)
  then show "live_data_socket model_dump h subs loads process_event None env s =
        ([], s, Raised AuthenticationRequiredError)"
    by (simp add: live_data_socket_def live_data_subscriptions_def)
next
  assume a: "live_data_subscriptions model_dump h subs creds = Inl e"
  then show "e = AuthenticationRequiredError" "creds = None" "needs_auth h subs"
    by (auto simp: live_data_subscriptions_def split: if_splits option.splits)
next
  assume a: "live_data_socket model_dump h subs loads process_event creds env s = (eff, s', Raised e) \<and>
      Connect url_live_data \<notin> set eff"
  show "e = AuthenticationRequiredError"
  proof (cases "live_data_subscriptions model_dump h subs creds")
    case (Inl e')
    with a show ?thesis
      by (auto simp: live_data_socket_def live_data_subscriptions_def split: if_splits option.splits)
  next
    case (Inr p)
    obtain h' subs' where "p = (h', subs')" by (cases p)
    with Inr a have "socket_loop ''Live data'' url_live_data (payload h' subs') loads process_event env s
        = (eff, s', Raised e)" by (simp add: live_data_socket_def)
    then have "Connect url_live_data \<in> set eff" by (rule socket_loop_raised_connects)
    with a show ?thesis by simp
  qed
qed

text \<open>The theorem for a single \<open>clob_user\<close> subscription.\<close>

theorem live_data_requires_credentials_witness:
  "0 \<in> set [0::nat] \<and> topic_is_clob_user ([[(''topic'', JStr ''clob_user'')]] ! 0) \<and>
   live_data_socket (\<lambda>c::string. JStr c) [[(''topic'', JStr ''clob_user'')]] [0]
       (\<lambda>m. Inr (JStr m)) (\<lambda>s d. ([], s, None)) None [Conn None None [''x''] None] () =
     ([], (), Raised AuthenticationRequiredError) \<and>
   live_data_subscriptions (\<lambda>c::string. JStr c) [[(''topic'', JStr ''clob_user'')]] [0] None =
     Inl AuthenticationRequiredError \<and>
   Connect url_live_data \<notin> set ([] :: effect list)"
  using live_data_requires_credentials [of 0 "[0]" "[[(''topic'', JStr ''clob_user'')]]"
      "\<lambda>c::string. JStr c" "\<lambda>m. Inr (JStr m)" "\<lambda>s d. ([], s, None)" "[Conn None None [''x''] None]" "()"
      None AuthenticationRequiredError "[]" "()"]
  by (simp add: topic_is_clob_user_def live_data_subscriptions_def needs_auth_def)

text \<open>
  Claim C4. With credentials, the payload is \<open>{action: "subscribe", subscriptions: [...]}\<close>
  whose entries are, in order, the caller's entries: those with the topic \<open>clob_user\<close>
  with the key \<open>clob_auth\<close> set to the serialized credentials, every other entry as it
  is. This payload is the handshake of \<open>live_data_socket\<close>: on a connection that opens,
  the function connects and sends it first, and no frame the function ever sends is
  anything else. (The subscriptions are addresses of allocated objects.)
\<close>

theorem live_data_payload_injects_credentials:
  "(\<forall>sub\<in>set subs. sub < length h) \<longrightarrow>
     (\<exists>h' subs'. live_data_subscriptions model_dump h subs (Some c) = Inr (h', subs') \<and>
        payload h' subs' =
          JObj [(''action'', JStr ''subscribe''),
                (''subscriptions'',
                 JArr (map (\<lambda>sub. JObj (if topic_is_clob_user (h ! sub)
                                          then AList.update ''clob_auth'' (model_dump c) (h ! sub)
                                          else h ! sub)) subs))] \<and>
        (\<forall>fs cl env. \<exists>eff s' st.
           live_data_socket model_dump h subs loads process_event (Some c)
             (Conn None None fs cl # env) s =
             (Connect url_live_data # Send (payload h' subs') # eff, s', st)) \<and>
        (\<forall>env eff s' st j.
           live_data_socket model_dump h subs loads process_event (Some c) env s = (eff, s', st) \<and>
           Send j \<in> set eff \<longrightarrow> j = payload h' subs')) \<and>
     (\<forall>d. map_of (AList.update ''clob_auth'' (model_dump c) d) ''clob_auth'' = Some (model_dump c))"
proof (intro impI conjI)
  assume wf: "\<forall>sub\<in>set subs. sub < length h"
  from live_data_payload_spec [OF wf, of model_dump c] obtain h' subs'
    where r: "live_data_subscriptions model_dump h subs (Some c) = Inr (h', subs')"
      and p: "payload h' subs' =
          JObj [(''action'', JStr ''subscribe''),
                (''subscriptions'',
                 JArr (map (\<lambda>sub. JObj (if topic_is_clob_user (h ! sub)
                                          then AList.update ''clob_auth'' (model_dump c) (h ! sub)
                                          else h ! sub)) subs))]"
    by blast
  have run: "live_data_socket model_dump h subs loads process_event (Some c) env s =
      socket_loop ''Live data'' url_live_data (payload h' subs') loads process_event env s" for env
    using r by (simp add: live_data_socket_def)
  have first: "\<forall>fs cl env. \<exists>eff s' st.
           live_data_socket model_dump h subs loads process_event (Some c)
             (Conn None None fs cl # env) s =
             (Connect url_live_data # Send (payload h' subs') # eff, s', st)"
    unfolding run by (intro allI) (rule socket_loop_handshake_first)
  have only: "\<forall>env eff s' st j.
           live_data_socket model_dump h subs loads process_event (Some c) env s = (eff, s', st) \<and>
           Send j \<in> set eff \<longrightarrow> j = payload h' subs'"
    unfolding run
  proof (intro allI impI)
    fix env eff s' st j
    assume "socket_loop ''Live data'' url_live_data (payload h' subs') loads process_event env s =
        (eff, s', st) \<and> Send j \<in> set eff"
    then show "j = payload h' subs'"
      by (elim conjE) (rule socket_loop_sends)
  qed
  from r p first only
  show "\<exists>h' subs'. live_data_subscriptions model_dump h subs (Some c) = Inr (h', subs') \<and>
        payload h' subs' =
          JObj [(''action'', JStr ''subscribe''),
                (''subscriptions'',
                 JArr (map (\<lambda>sub. JObj (if topic_is_clob_user (h ! sub)
                                          then AList.update ''clob_auth'' (model_dump c) (h ! sub)
                                          else h ! sub)) subs))] \<and>
        (\<forall>fs cl env. \<exists>eff s' st.
           live_data_socket model_dump h subs loads process_event (Some c)
             (Conn None None fs cl # env) s =
             (Connect url_live_data # Send (payload h' subs') # eff, s', st)) \<and>
        (\<forall>env eff s' st j.
           live_data_socket model_dump h subs loads process_event (Some c) env s = (eff, s', st) \<and>
           Send j \<in> set eff \<longrightarrow> j = payload h' subs')"
    by blast
next
  show "\<forall>d. map_of (AList.update ''clob_auth'' (model_dump c) d) ''clob_auth'' = Some (model_dump c)"
    by (simp add: update_conv')
qed

text \<open>
  The theorem for a \<open>clob_user\<close> entry followed by an \<open>activity\<close> entry, and the run of
  \<open>live_data_socket\<close> on one connection that opens and delivers nothing.
\<close>

theorem live_data_payload_injects_credentials_witness:
  "0 < length [[(''topic'', JStr ''clob_user'')], [(''topic'', JStr ''activity'')]] \<and>
   1 < length [[(''topic'', JStr ''clob_user'')], [(''topic'', JStr ''activity'')]] \<and>
   (\<exists>h' subs'. live_data_subscriptions (\<lambda>c. JStr c)
       [[(''topic'', JStr ''clob_user'')], [(''topic'', JStr ''activity'')]] [0, 1] (Some ''key'') =
       Inr (h', subs') \<and>
     payload h' subs' =
       JObj [(''action'', JStr ''subscribe''),
             (''subscriptions'',
              JArr [JObj [(''topic'', JStr ''clob_user''), (''clob_auth'', JStr ''key'')],
                    JObj [(''topic'', JStr ''activity'')]])]) \<and>
   live_data_socket (\<lambda>c. JStr c)
       [[(''topic'', JStr ''clob_user'')], [(''topic'', JStr ''activity'')]] [0, 1]
       (\<lambda>m. Inr (JStr m)) (\<lambda>(s::unit) d. ([], s, None)) (Some ''key'')
       [Conn None None [] None] () =
     ([Connect url_live_data,
       Send (JObj [(''action'', JStr ''subscribe''),
             (''subscriptions'',
              JArr [JObj [(''topic'', JStr ''clob_user''), (''clob_auth'', JStr ''key'')],
                    JObj [(''topic'', JStr ''activity'')]])])], (), Running)"
proof -
  have run: "live_data_socket (\<lambda>c. JStr c)
       [[(''topic'', JStr ''clob_user'')], [(''topic'', JStr ''activity'')]] [0, 1]
       (\<lambda>m. Inr (JStr m)) (\<lambda>(s::unit) d. ([], s, None)) (Some ''key'')
       [Conn None None [] None] () =
     ([Connect url_live_data,
       Send (JObj [(''action'', JStr ''subscribe''),
             (''subscriptions'',
              JArr [JObj [(''topic'', JStr ''clob_user''), (''clob_auth'', JStr ''key'')],
                    JObj [(''topic'', JStr ''activity'')]])])], (), Running)"
    by (simp add: live_data_socket_def live_data_subscriptions_def needs_auth_def
        topic_is_clob_user_def payload_def session_def Let_def)
  from live_data_payload_injects_credentials [where subs = "[0, 1]"
      and h = "[[(''topic'', JStr ''clob_user'')], [(''topic'', JStr ''activity'')]]"
      and model_dump = "\<lambda>c. JStr c" and c = "''key''" and loads = "\<lambda>m. Inr (JStr m)"
      and process_event = "\<lambda>(s::unit) d. ([], s, None)" and s = "()"]
  have "\<exists>h' subs'. live_data_subscriptions (\<lambda>c. JStr c)
       [[(''topic'', JStr ''clob_user'')], [(''topic'', JStr ''activity'')]] [0, 1] (Some ''key'') =
       Inr (h', subs') \<and>
     payload h' subs' =
       JObj [(''action'', JStr ''subscribe''),
             (''subscriptions'',
              JArr [JObj [(''topic'', JStr ''clob_user''), (''clob_auth'', JStr ''key'')],
                    JObj [(''topic'', JStr ''activity'')]])]"
    by (simp add: topic_is_clob_user_def) blast
  with run show ?thesis by simp
qed



text \<open>
  Claim C9. Building the payload leaves every object of the caller's heap as it was: the
  new heap is the old one followed by the copies, so each dict of the caller's list is
  equal to its value before the call.
\<close>

theorem live_data_socket_keeps_callers_dicts:
  "live_data_subscriptions model_dump h subs creds = Inr (h', subs') \<longrightarrow>
     take (length h) h' = h \<and> (\<forall>sub\<in>set subs. sub < length h \<longrightarrow> h' ! sub = h ! sub)"
proof
  assume "live_data_subscriptions model_dump h subs creds = Inr (h', subs')"
  then obtain new where "h' = h @ new" using live_data_subscriptions_extends by blast
  then show "take (length h) h' = h \<and> (\<forall>sub\<in>set subs. sub < length h \<longrightarrow> h' ! sub = h ! sub)"
    by (simp add: nth_append)
qed

text \<open>
  The theorem for a \<open>clob_user\<close> entry followed by an \<open>activity\<close> entry: the entry with
  the credentials is the new object at address 2.
\<close>

theorem live_data_socket_keeps_callers_dicts_witness:
  "live_data_subscriptions (\<lambda>c. JStr c)
     [[(''topic'', JStr ''clob_user'')], [(''topic'', JStr ''activity'')]] [0, 1] (Some ''key'') =
     Inr ([[(''topic'', JStr ''clob_user'')], [(''topic'', JStr ''activity'')],
           [(''topic'', JStr ''clob_user''), (''clob_auth'', JStr ''key'')]], [2, 1]) \<and>
   take 2 [[(''topic'', JStr ''clob_user'')], [(''topic'', JStr ''activity'')],
           [(''topic'', JStr ''clob_user''), (''clob_auth'', JStr ''key'')]] =
     [[(''topic'', JStr ''clob_user'')], [(''topic'', JStr ''activity'')]]"
proof -
  have r: "live_data_subscriptions (\<lambda>c. JStr c)
     [[(''topic'', JStr ''clob_user'')], [(''topic'', JStr ''activity'')]] [0, 1] (Some ''key'') =
     Inr ([[(''topic'', JStr ''clob_user'')], [(''topic'', JStr ''activity'')],
           [(''topic'', JStr ''clob_user''), (''clob_auth'', JStr ''key'')]], [2, 1])"
    by (simp add: live_data_subscriptions_def needs_auth_def topic_is_clob_user_def Let_def)
  from live_data_socket_keeps_callers_dicts [of "\<lambda>c. JStr c"
      "[[(''topic'', JStr ''clob_user'')], [(''topic'', JStr ''activity'')]]" "[0, 1]" "Some ''key''"
      "[[(''topic'', JStr ''clob_user'')], [(''topic'', JStr ''activity'')],
           [(''topic'', JStr ''clob_user''), (''clob_auth'', JStr ''key'')]]" "[2, 1]"] r
  show ?thesis by simp
qed

end
